theory Spec2Isabelle
  imports Main "HOL-Library.Word"
begin

section \<open>The directory object of the object manager (ntoskrnl/ob/dirobj.c)\<close>

subsection \<open>Machine types and status codes\<close>

type_synonym ULONG = "32 word"
type_synonym USHORT = "16 word"
type_synonym WCHAR = "16 word"
type_synonym NTSTATUS = "32 word"

text \<open>An address. Pointers are never compared or wrapped in this file; NULL is 0.\<close>

type_synonym PWSTR = nat

definition NULL :: nat where
  "NULL = 0"

text \<open>
  Modelled from the spec: the status codes and \<open>NT_SUCCESS\<close> are declared in headers that
  are not among the sources. NTSTATUS is a signed 32-bit value and \<open>NT_SUCCESS\<close> is
  \<open>Status >= 0\<close>; the spec calls \<^emph>\<open>more entries\<close> an informational success, and
  \<^emph>\<open>no more entries\<close>, \<^emph>\<open>buffer too small\<close> and \<^emph>\<open>insufficient resources\<close> are not
  successes. The values are those of the NT status header.
\<close>

definition NT_SUCCESS :: "NTSTATUS \<Rightarrow> bool" where
  "NT_SUCCESS s = (0 \<le> sint s)"

definition STATUS_SUCCESS :: NTSTATUS where
  "STATUS_SUCCESS = 0"

definition STATUS_MORE_ENTRIES :: NTSTATUS where
  "STATUS_MORE_ENTRIES = 0x00000105"

definition STATUS_NO_MORE_ENTRIES :: NTSTATUS where
  "STATUS_NO_MORE_ENTRIES = 0x8000001A"

definition STATUS_BUFFER_TOO_SMALL :: NTSTATUS where
  "STATUS_BUFFER_TOO_SMALL = 0xC0000023"

definition STATUS_INSUFFICIENT_RESOURCES :: NTSTATUS where
  "STATUS_INSUFFICIENT_RESOURCES = 0xC000009A"

datatype KPROCESSOR_MODE = KernelMode | UserMode

subsection \<open>Calls on the collaborators and accesses to memory, as events\<close>

text \<open>
  The accesses to the caller's memory. Each of them runs inside \<open>_SEH_TRY\<close>, where it
  may raise an exception whose code becomes the status.
\<close>

datatype caller_access =
    ProbeBuffer | ProbeContext | ReadContext | ProbeReturnLength
  | CopyBuffer | WriteContext | WriteReturnLength
  | ProbeHandle | WriteHandle

text \<open>
  What a call does, in program order. \<open>WriteScratch off len\<close> is a store of \<open>len\<close> bytes
  at byte offset \<open>off\<close> of TemporaryBuffer.
\<close>

datatype event =
    ObReferenceObjectByHandle | ObDereferenceObject
  | ObCreateObject | ObInsertObject | ObMakeTemporaryObject
  | ExAllocatePool | ExFreePool
  | KeAcquireSpinLock | KeReleaseSpinLock
  | ReadLinkage | ReadDescriptor | ReadCharacters
  | WriteScratch nat nat
  | Caller caller_access

text \<open>The exception, if any, that an access to the caller's memory raises.\<close>

type_synonym faults = "caller_access \<Rightarrow> NTSTATUS option"

definition no_faults :: faults where
  "no_faults = (\<lambda>a. None)"

subsection \<open>Strings, directory entries and the kernel's environment\<close>

record UNICODE_STRING =
  Length :: USHORT
  MaximumLength :: USHORT
  Buffer :: PWSTR

record OBJECT_DIRECTORY_INFORMATION =
  ObjectName :: UNICODE_STRING
  ObjectTypeName :: UNICODE_STRING

text \<open>
  What the scan reads of an entry of the directory's list:
  \<open>HEADER_TO_OBJECT_NAME(EntryHeader)->Name\<close> and \<open>EntryHeader->Type->Name\<close>.
\<close>

record ROS_OBJECT_HEADER =
  Name :: UNICODE_STRING
  TypeName :: UNICODE_STRING

text \<open>
  Kernel memory as the wide characters stored at each address: the character \<open>i\<close> of
  a string whose Buffer is \<open>p\<close> is the one at address \<open>p + 2 * i\<close>.
\<close>

type_synonym memory = "nat \<Rightarrow> WCHAR"

definition read_wstr :: "memory \<Rightarrow> PWSTR \<Rightarrow> nat \<Rightarrow> WCHAR list" where
  "read_wstr mem p n = map (\<lambda>i. mem (p + 2 * i)) [0..<n]"

text \<open>
  Everything a call takes from outside this file. RecordSize is
  \<open>sizeof(OBJECT_DIRECTORY_INFORMATION)\<close>, whose declaration is not among the sources.
  Directory is the list of the entries in the order of the Flink links, starting at
  \<open>Directory->head.Flink\<close>. Resolved is the status of ObReferenceObjectByHandle, Allocated
  says whether ExAllocatePool returned a buffer.
\<close>

record kernel =
  RecordSize :: ULONG
  PreviousMode :: KPROCESSOR_MODE
  Faults :: faults
  Resolved :: NTSTATUS
  Directory :: "ROS_OBJECT_HEADER list"
  Allocated :: bool
  Memory :: memory

text \<open>
  The arguments but the handle. BufferAddress is the pointer Buffer, Context the value of
  \<open>*Context\<close> when the call starts, ReturnLength says whether the pointer is not NULL.
\<close>

record query_args =
  BufferAddress :: nat
  BufferLength :: ULONG
  ReturnSingleEntry :: bool
  RestartScan :: bool
  Context :: ULONG
  ReturnLength :: bool

subsection \<open>NtQueryDirectoryObject: the scan of the list\<close>

text \<open>
  The local variables of the first loop. DirInfo holds the records stored so far at the
  start of TemporaryBuffer, in order.
\<close>

record scan_state =
  SkipEntries :: ULONG
  NextEntry :: ULONG
  RequiredSize :: ULONG
  nDirectories :: ULONG
  Status :: NTSTATUS
  DirInfo :: "OBJECT_DIRECTORY_INFORMATION list"
  Events :: "event list"

definition EntrySize_of :: "ULONG \<Rightarrow> ROS_OBJECT_HEADER \<Rightarrow> ULONG" where
  "EntrySize_of sz EntryHeader =
     sz + (if Length (Name EntryHeader) \<noteq> 0 then ucast (Length (Name EntryHeader)) + 2 else 0)
        + ucast (Length (TypeName EntryHeader)) + 2"

definition staged_record :: "ROS_OBJECT_HEADER \<Rightarrow> OBJECT_DIRECTORY_INFORMATION" where
  "staged_record EntryHeader =
     \<lparr>ObjectName = (if Length (Name EntryHeader) \<noteq> 0 then Name EntryHeader
                     else \<lparr>Length = 0, MaximumLength = 0, Buffer = NULL\<rparr>),
      ObjectTypeName = TypeName EntryHeader\<rparr>"

text \<open>
  The loop over the list. The result says whether the loop was left by \<open>break\<close>, that is
  whether \<open>ListEntry != &Directory->head\<close> after it.
\<close>

fun scan :: "ULONG \<Rightarrow> ULONG \<Rightarrow> bool \<Rightarrow> ROS_OBJECT_HEADER list \<Rightarrow> scan_state
    \<Rightarrow> scan_state \<times> bool" where
  "scan sz len single [] s = (s\<lparr>Events := Events s @ [ReadLinkage]\<rparr>, False)"
| "scan sz len single (EntryHeader # rest) s0 =
    (let s = s0\<lparr>NextEntry := NextEntry s0 + 1, Events := Events s0 @ [ReadLinkage]\<rparr>
     in if SkipEntries s = 0
        then (let EntrySize = EntrySize_of sz EntryHeader
              in if RequiredSize s + EntrySize \<le> len
                 then (let s1 = s\<lparr>DirInfo := DirInfo s @ [staged_record EntryHeader],
                                  nDirectories := nDirectories s + 1,
                                  RequiredSize := RequiredSize s + EntrySize,
                                  Status := STATUS_SUCCESS,
                                  Events := Events s @ [ReadDescriptor,
                                    WriteScratch (unat (nDirectories s) * unat sz) (unat sz)]\<rparr>
                       in if single then (s1, True) else scan sz len single rest s1)
                 else (let s1 = (if single
                                 then s\<lparr>RequiredSize := RequiredSize s + EntrySize,
                                        Status := STATUS_BUFFER_TOO_SMALL\<rparr>
                                 else s)
                       in (s1\<lparr>NextEntry := NextEntry s1 - 1,
                              Events := Events s1 @ [ReadDescriptor]\<rparr>, True)))
        else scan sz len single rest (s\<lparr>SkipEntries := SkipEntries s - 1\<rparr>))"

subsection \<open>NtQueryDirectoryObject: the strings are appended to the records\<close>

text \<open>
  The local variables of the second loop, and TemporaryBuffer as it fills it: Records are
  the records whose pointers the loop has redirected, Heap the wide characters stored
  from \<open>(POBJECT_DIRECTORY_INFORMATION)TemporaryBuffer + nDirectories + 1\<close> on.
  strbuf is a byte offset into TemporaryBuffer, deststrbuf an address.
\<close>

record compact_state =
  strbuf :: nat
  deststrbuf :: nat
  CopyBytes :: ULONG
  Records :: "OBJECT_DIRECTORY_INFORMATION list"
  Heap :: "WCHAR list"
  CEvents :: "event list"

text \<open>
  The statements the loop runs for the name and again for the type name: RtlCopyMemory
  of Length bytes to strbuf, the pointer redirected to deststrbuf, the terminator stored
  at index \<open>Length / sizeof(WCHAR)\<close>, and the three variables advanced. When Length is
  odd, the terminator overwrites the odd byte that was copied last. \<open>rec\<close> is the byte
  offset of the record in TemporaryBuffer.
\<close>

definition copy_string :: "memory \<Rightarrow> ULONG \<Rightarrow> nat \<Rightarrow> UNICODE_STRING \<Rightarrow> compact_state
    \<Rightarrow> UNICODE_STRING \<times> compact_state" where
  "copy_string mem sz rec u c =
     (let NameLength = unat (Length u) div 2
      in (u\<lparr>Buffer := deststrbuf c\<rparr>,
          c\<lparr>Heap := Heap c @ read_wstr mem (Buffer u) NameLength @ [0],
            strbuf := strbuf c + 2 * (NameLength + 1),
            deststrbuf := deststrbuf c + 2 * (NameLength + 1),
            CopyBytes := CopyBytes c + (ucast (Length u) div 2 + 1) * 2,
            CEvents := CEvents c @ [ReadCharacters, WriteScratch (strbuf c) (unat (Length u)),
              WriteScratch rec (unat sz), WriteScratch (strbuf c + 2 * NameLength) 2]\<rparr>))"

text \<open>The body of the loop, for the record \<open>d\<close> that DirInfo points to.\<close>

definition compact_record :: "memory \<Rightarrow> ULONG \<Rightarrow> OBJECT_DIRECTORY_INFORMATION
    \<Rightarrow> compact_state \<Rightarrow> compact_state" where
  "compact_record mem sz d c =
    (let rec = length (Records c) * unat sz;
         (n, c1) = (if Length (ObjectName d) > 0
                    then copy_string mem sz rec (ObjectName d) c
                    else (ObjectName d, c));
         (t, c2) = copy_string mem sz rec (ObjectTypeName d) c1
     in c2\<lparr>Records := Records c2 @ [\<lparr>ObjectName = n, ObjectTypeName = t\<rparr>]\<rparr>)"

fun compact :: "memory \<Rightarrow> ULONG \<Rightarrow> OBJECT_DIRECTORY_INFORMATION list \<Rightarrow> compact_state
    \<Rightarrow> compact_state" where
  "compact mem sz [] c = c"
| "compact mem sz (d # ds) c = compact mem sz ds (compact_record mem sz d c)"

definition zero_record :: OBJECT_DIRECTORY_INFORMATION where
  "zero_record = \<lparr>ObjectName = \<lparr>Length = 0, MaximumLength = 0, Buffer = NULL\<rparr>,
                  ObjectTypeName = \<lparr>Length = 0, MaximumLength = 0, Buffer = NULL\<rparr>\<rparr>"

text \<open>
  The block guarded by \<open>NT_SUCCESS(Status) && nDirectories > 0\<close>: the two pointers are
  set behind \<open>nDirectories + 1\<close> records, the record behind the stored ones is zeroed,
  and the loop runs over the stored records. The zeroed record lies behind the records
  that the loop redirects, so it is the last of Records when the loop is done.
\<close>

definition compact_block :: "memory \<Rightarrow> ULONG \<Rightarrow> nat \<Rightarrow> scan_state \<Rightarrow> compact_state" where
  "compact_block mem sz buf s =
     (let c = compact mem sz (DirInfo s)
               \<lparr>strbuf = (unat (nDirectories s) + 1) * unat sz,
                deststrbuf = buf + (unat (nDirectories s) + 1) * unat sz,
                CopyBytes = (nDirectories s + 1) * sz,
                Records = [],
                Heap = [],
                CEvents = Events s @ [WriteScratch (unat (nDirectories s) * unat sz) (unat sz)]\<rparr>
      in c\<lparr>Records := Records c @ [zero_record]\<rparr>)"

subsection \<open>NtQueryDirectoryObject: the accesses to the caller's memory\<close>

text \<open>
  The first \<open>_SEH_TRY\<close> block: the status and SkipEntries after it. An exception leaves
  the block at once with its code as the status.
\<close>

definition probe_arguments :: "faults \<Rightarrow> query_args \<Rightarrow> NTSTATUS \<times> ULONG \<times> event list" where
  "probe_arguments flt a =
     (case flt ProbeBuffer of
        Some e \<Rightarrow> (e, 0, [Caller ProbeBuffer])
      | None \<Rightarrow>
     (case flt ProbeContext of
        Some e \<Rightarrow> (e, 0, [Caller ProbeBuffer, Caller ProbeContext])
      | None \<Rightarrow>
     (let ev = [Caller ProbeBuffer, Caller ProbeContext] @
               (if \<not> RestartScan a then [Caller ReadContext] else [])
      in if \<not> RestartScan a \<and> flt ReadContext \<noteq> None
         then (the (flt ReadContext), 0, ev)
         else (let skip = (if \<not> RestartScan a then Context a else 0)
               in if ReturnLength a
                  then (case flt ProbeReturnLength of
                          Some e \<Rightarrow> (e, skip, ev @ [Caller ProbeReturnLength])
                        | None \<Rightarrow> (STATUS_SUCCESS, skip, ev @ [Caller ProbeReturnLength]))
                  else (STATUS_SUCCESS, skip, ev)))))"

record query_result =
  ReturnStatus :: NTSTATUS
  QueryEvents :: "event list"
  BufferOut :: "(OBJECT_DIRECTORY_INFORMATION list \<times> WCHAR list) option"
  BytesCopied :: ULONG
  ContextOut :: "ULONG option"
  ReturnLengthOut :: "ULONG option"

text \<open>
  What \<open>RtlCopyMemory(Buffer, TemporaryBuffer, n)\<close> stores at Buffer, TemporaryBuffer
  holding the records, of \<open>sz\<close> bytes each, and behind them the characters of the heap:
  the records and the characters that lie within the first \<open>n\<close> bytes. A record or a
  character that the \<open>n\<close>-th byte cuts is not among them.
\<close>

definition first_bytes :: "nat \<Rightarrow> nat \<Rightarrow> OBJECT_DIRECTORY_INFORMATION list \<Rightarrow> WCHAR list
    \<Rightarrow> OBJECT_DIRECTORY_INFORMATION list \<times> WCHAR list" where
  "first_bytes sz n recs heap =
     (if length recs * sz \<le> n then (recs, take ((n - length recs * sz) div 2) heap)
      else (take (n div sz) recs, []))"

text \<open>
  The last \<open>_SEH_TRY\<close> block, \<open>sz\<close> being the size of a record. BufferOut is what
  RtlCopyMemory stores at Buffer: the first CopyBytes bytes of TemporaryBuffer, which
  holds Records followed by Heap. ContextOut and ReturnLengthOut are the values stored
  through the two pointers. None is a location that the call does not store to. An
  exception ends the block with its code as the status; what a faulting RtlCopyMemory
  has stored by then is not kept.
\<close>

definition deliver :: "ULONG \<Rightarrow> faults \<Rightarrow> query_args \<Rightarrow> NTSTATUS \<Rightarrow> scan_state
    \<Rightarrow> compact_state \<Rightarrow> event list \<Rightarrow> query_result" where
  "deliver sz flt a st s c ev =
     (let ev1 = ev @ (if CopyBytes c \<noteq> 0 then [Caller CopyBuffer] else []);
          out = (if CopyBytes c \<noteq> 0
                 then Some (first_bytes (unat sz) (unat (CopyBytes c)) (Records c) (Heap c))
                 else None);
          n = (if CopyBytes c \<noteq> 0 then CopyBytes c else 0)
      in if CopyBytes c \<noteq> 0 \<and> flt CopyBuffer \<noteq> None
         then \<lparr>ReturnStatus = the (flt CopyBuffer), QueryEvents = ev1 @ [ExFreePool],
               BufferOut = None, BytesCopied = 0, ContextOut = None, ReturnLengthOut = None\<rparr>
         else (case flt WriteContext of
                 Some e \<Rightarrow> \<lparr>ReturnStatus = e,
                            QueryEvents = ev1 @ [Caller WriteContext, ExFreePool],
                            BufferOut = out, BytesCopied = n, ContextOut = None,
                            ReturnLengthOut = None\<rparr>
               | None \<Rightarrow>
              (if ReturnLength a
               then (case flt WriteReturnLength of
                       Some e \<Rightarrow> \<lparr>ReturnStatus = e,
                                  QueryEvents = ev1 @ [Caller WriteContext,
                                    Caller WriteReturnLength, ExFreePool],
                                  BufferOut = out, BytesCopied = n,
                                  ContextOut = Some (NextEntry s), ReturnLengthOut = None\<rparr>
                     | None \<Rightarrow> \<lparr>ReturnStatus = st,
                                QueryEvents = ev1 @ [Caller WriteContext,
                                  Caller WriteReturnLength, ExFreePool],
                                BufferOut = out, BytesCopied = n,
                                ContextOut = Some (NextEntry s),
                                ReturnLengthOut = Some (RequiredSize s)\<rparr>)
               else \<lparr>ReturnStatus = st,
                     QueryEvents = ev1 @ [Caller WriteContext, ExFreePool],
                     BufferOut = out, BytesCopied = n,
                     ContextOut = Some (NextEntry s), ReturnLengthOut = None\<rparr>)))"

subsection \<open>NtQueryDirectoryObject\<close>

definition untouched :: "NTSTATUS \<Rightarrow> event list \<Rightarrow> query_result" where
  "untouched st ev = \<lparr>ReturnStatus = st, QueryEvents = ev, BufferOut = None,
                      BytesCopied = 0, ContextOut = None, ReturnLengthOut = None\<rparr>"

text \<open>
  The start of the function, up to the call of ObReferenceObjectByHandle: the status,
  SkipEntries and the events. In kernel mode \<open>*Context\<close> is read without a probe.
\<close>

definition capture_arguments :: "kernel \<Rightarrow> query_args \<Rightarrow> NTSTATUS \<times> ULONG \<times> event list" where
  "capture_arguments k a =
     (if PreviousMode k \<noteq> KernelMode then probe_arguments (Faults k) a
      else if \<not> RestartScan a then (STATUS_SUCCESS, Context a, [Caller ReadContext])
      else (STATUS_SUCCESS, 0, []))"

text \<open>
  The block that runs when TemporaryBuffer is not NULL, \<open>skip\<close> being SkipEntries and
  \<open>ev\<close> the events so far.
\<close>

definition scan_and_deliver :: "kernel \<Rightarrow> query_args \<Rightarrow> ULONG \<Rightarrow> event list \<Rightarrow> query_result" where
  "scan_and_deliver k a skip ev =
     (let (s, left) = scan (RecordSize k) (BufferLength a) (ReturnSingleEntry a) (Directory k)
                        \<lparr>SkipEntries = skip, NextEntry = 0,
                         RequiredSize = RecordSize k, nDirectories = 0,
                         Status = STATUS_NO_MORE_ENTRIES, DirInfo = [],
                         Events = ev @ [KeAcquireSpinLock]\<rparr>;
          st1 = (if \<not> ReturnSingleEntry a \<and> left then STATUS_MORE_ENTRIES else Status s);
          c = (if NT_SUCCESS st1 \<and> nDirectories s > 0
               then compact_block (Memory k) (RecordSize k) (BufferAddress a) s
               else \<lparr>strbuf = 0, deststrbuf = 0, CopyBytes = 0, Records = [],
                     Heap = [], CEvents = Events s\<rparr>);
          ev1 = CEvents c @ [KeReleaseSpinLock, ObDereferenceObject]
      in if NT_SUCCESS st1 \<or> ReturnSingleEntry a
         then deliver (RecordSize k) (Faults k) a st1 s c ev1
         else untouched st1 (ev1 @ [ExFreePool]))"

definition NtQueryDirectoryObject :: "kernel \<Rightarrow> query_args \<Rightarrow> query_result" where
  "NtQueryDirectoryObject k a =
     (let (st0, skip, ev0) = capture_arguments k a
      in if PreviousMode k \<noteq> KernelMode \<and> \<not> NT_SUCCESS st0 then untouched st0 ev0
         else if NT_SUCCESS (Resolved k)
         then if Allocated k
              then scan_and_deliver k a skip (ev0 @ [ObReferenceObjectByHandle, ExAllocatePool])
              else untouched STATUS_INSUFFICIENT_RESOURCES
                     (ev0 @ [ObReferenceObjectByHandle, ExAllocatePool])
         else untouched (Resolved k) (ev0 @ [ObReferenceObjectByHandle]))"

subsection \<open>NtCreateDirectoryObject\<close>

record create_result =
  CreateStatus :: NTSTATUS
  CreateEvents :: "event list"
  HandleOut :: "nat option"

text \<open>
  \<open>created\<close> is the status of ObCreateObject, \<open>inserted\<close> the status of ObInsertObject
  and \<open>hDirectory\<close> the handle it stores. HandleOut is the value stored through
  DirectoryHandle, None when nothing is stored.
\<close>

definition NtCreateDirectoryObject ::
  "KPROCESSOR_MODE \<Rightarrow> faults \<Rightarrow> NTSTATUS \<Rightarrow> NTSTATUS \<Rightarrow> nat \<Rightarrow> create_result" where
  "NtCreateDirectoryObject mode flt created inserted hDirectory =
    (let probe = (if mode \<noteq> KernelMode
                  then (case flt ProbeHandle of None \<Rightarrow> STATUS_SUCCESS | Some e \<Rightarrow> e)
                  else STATUS_SUCCESS);
         ev0 = (if mode \<noteq> KernelMode then [Caller ProbeHandle] else [])
     in if mode \<noteq> KernelMode \<and> \<not> NT_SUCCESS probe
        then \<lparr>CreateStatus = probe, CreateEvents = ev0, HandleOut = None\<rparr>
        else if NT_SUCCESS created
        then (let ev1 = ev0 @ [ObCreateObject, ObInsertObject]
                      @ (if \<not> NT_SUCCESS inserted then [ObMakeTemporaryObject] else [])
                      @ [ObDereferenceObject]
              in if NT_SUCCESS inserted
                 then (case flt WriteHandle of
                         None \<Rightarrow> \<lparr>CreateStatus = inserted,
                                  CreateEvents = ev1 @ [Caller WriteHandle],
                                  HandleOut = Some hDirectory\<rparr>
                       | Some e \<Rightarrow> \<lparr>CreateStatus = e,
                                    CreateEvents = ev1 @ [Caller WriteHandle],
                                    HandleOut = None\<rparr>)
                 else \<lparr>CreateStatus = inserted, CreateEvents = ev1, HandleOut = None\<rparr>)
        else \<lparr>CreateStatus = created, CreateEvents = ev0 @ [ObCreateObject],
              HandleOut = None\<rparr>)"

subsection \<open>Reading a list of events\<close>

text \<open>The events behind the first occurrence of an event.\<close>

definition after :: "event \<Rightarrow> event list \<Rightarrow> event list" where
  "after e xs = drop 1 (dropWhile (\<lambda>x. x \<noteq> e) xs)"

subsection \<open>The conditions under which a call is studied\<close>

text \<open>
  The caller's memory is accessible, the handle resolves and the allocation succeeds.
\<close>

definition served :: "kernel \<Rightarrow> bool" where
  "served k = (Faults k = no_faults \<and> NT_SUCCESS (Resolved k) \<and> Allocated k)"

text \<open>
  The record has a size, and the sizes stay below \<open>2 ^ 32\<close>: an entry needs at most
  RecordSize + 2 * 65535 + 4 bytes, so that no sum that the scan computes wraps around.
\<close>

definition in_range :: "kernel \<Rightarrow> query_args \<Rightarrow> bool" where
  "in_range k a = (0 < unat (RecordSize k)
     \<and> unat (BufferLength a) + 2 * unat (RecordSize k) + 131074 < 2 ^ 32)"

text \<open>The number of entries that the call skips.\<close>

definition skipped :: "query_args \<Rightarrow> nat" where
  "skipped a = (if RestartScan a then 0 else unat (Context a))"

subsection \<open>The scan in the words of the specification\<close>

text \<open>
  \<open>entrySize = sizeof(record) + (hasName ? nameBytes + 2 : 0) + typeNameBytes + 2\<close>,
  over the natural numbers.
\<close>

definition spec_entrySize :: "nat \<Rightarrow> ROS_OBJECT_HEADER \<Rightarrow> nat" where
  "spec_entrySize rs e =
     rs + (if Length (Name e) \<noteq> 0 then unat (Length (Name e)) + 2 else 0)
        + unat (Length (TypeName e)) + 2"

text \<open>
  From the unconsumed entries and runningRequired, the entries that are staged and
  runningRequired after the scan: an entry is staged when
  \<open>runningRequired + entrySize <= bufferLength\<close>; the scan stops behind the first staged
  entry if returnSingleEntry, and at the first entry that does not fit, which adds its
  size to runningRequired if returnSingleEntry.
\<close>

fun spec_scan :: "nat \<Rightarrow> nat \<Rightarrow> bool \<Rightarrow> ROS_OBJECT_HEADER list \<Rightarrow> nat
    \<Rightarrow> ROS_OBJECT_HEADER list \<times> nat" where
  "spec_scan rs bl single [] req = ([], req)"
| "spec_scan rs bl single (e # es) req =
    (if req + spec_entrySize rs e \<le> bl
     then (if single then ([e], req + spec_entrySize rs e)
           else (case spec_scan rs bl single es (req + spec_entrySize rs e) of
                   (st, r) \<Rightarrow> (e # st, r)))
     else ([], if single then req + spec_entrySize rs e else req))"

subsection \<open>The strings of an entry and of a delivered record\<close>

definition name_chars :: "memory \<Rightarrow> UNICODE_STRING \<Rightarrow> WCHAR list" where
  "name_chars mem u = read_wstr mem (Buffer u) (unat (Length u) div 2)"

text \<open>The name, empty for an entry without a name, and the type name of an entry.\<close>

definition member_strings :: "memory \<Rightarrow> ROS_OBJECT_HEADER \<Rightarrow> WCHAR list \<times> WCHAR list" where
  "member_strings mem e =
     (if Length (Name e) \<noteq> 0 then name_chars mem (Name e) else [],
      name_chars mem (TypeName e))"

text \<open>
  The characters that an entry takes in the heap: the name, when it has one, and the
  type name, each followed by a terminator.
\<close>

definition heap_chars :: "memory \<Rightarrow> ROS_OBJECT_HEADER \<Rightarrow> WCHAR list" where
  "heap_chars mem e =
     (if Length (Name e) \<noteq> 0 then name_chars mem (Name e) @ [0] else [])
     @ name_chars mem (TypeName e) @ [0]"

text \<open>
  What the caller reads through a descriptor of a delivered record: the characters at
  its pointer, \<open>base\<close> being the address of the first character of the heap.
\<close>

definition heap_string :: "nat \<Rightarrow> WCHAR list \<Rightarrow> UNICODE_STRING \<Rightarrow> WCHAR list" where
  "heap_string base heap u = take (unat (Length u) div 2) (drop ((Buffer u - base) div 2) heap)"

text \<open>The pairs of name and type name that a call delivers: the records before the last.\<close>

definition delivered :: "kernel \<Rightarrow> query_args \<Rightarrow> query_result
    \<Rightarrow> (WCHAR list \<times> WCHAR list) list" where
  "delivered k a r =
     (case BufferOut r of
        None \<Rightarrow> []
      | Some (recs, heap) \<Rightarrow>
          (let base = BufferAddress a + length recs * unat (RecordSize k)
           in map (\<lambda>d. (heap_string base heap (ObjectName d),
                         heap_string base heap (ObjectTypeName d))) (butlast recs)))"

subsection \<open>The layout in the words of the specification\<close>

text \<open>The number of wide characters that an entry takes in the heap.\<close>

definition heap_length :: "ROS_OBJECT_HEADER \<Rightarrow> nat" where
  "heap_length e =
     (if Length (Name e) \<noteq> 0 then unat (Length (Name e)) div 2 + 1 else 0)
     + unat (Length (TypeName e)) div 2 + 1"

text \<open>
  The record of an entry whose strings start at address \<open>p\<close>: the descriptors of the
  entry with the pointers redirected, the name first and the type name behind the
  name's terminator. An entry without a name has an empty descriptor.
\<close>

definition delivered_record :: "nat \<Rightarrow> ROS_OBJECT_HEADER \<Rightarrow> OBJECT_DIRECTORY_INFORMATION" where
  "delivered_record p e =
     \<lparr>ObjectName = (if Length (Name e) \<noteq> 0 then (Name e)\<lparr>Buffer := p\<rparr>
                     else \<lparr>Length = 0, MaximumLength = 0, Buffer = NULL\<rparr>),
      ObjectTypeName = (TypeName e)\<lparr>Buffer := p +
        2 * (if Length (Name e) \<noteq> 0 then unat (Length (Name e)) div 2 + 1 else 0)\<rparr>\<rparr>"

text \<open>The records of the entries whose strings are packed from address \<open>p\<close> on.\<close>

fun spec_records :: "nat \<Rightarrow> ROS_OBJECT_HEADER list \<Rightarrow> OBJECT_DIRECTORY_INFORMATION list" where
  "spec_records p [] = []"
| "spec_records p (e # es) = delivered_record p e # spec_records (p + 2 * heap_length e) es"

subsection \<open>Reading the events of a query\<close>







subsection \<open>A scan over several calls\<close>

text \<open>
  The caller's loop: each call takes its buffer and ReturnSingleEntry from the list, the
  first call restarts the scan, the later ones pass the cursor on as the call before
  left it. The loop ends when a call returns STATUS_NO_MORE_ENTRIES. The result is what
  the calls delivered, the cursor, and whether the loop ended.
\<close>

fun query_loop :: "kernel \<Rightarrow> query_args list \<Rightarrow> bool \<Rightarrow> ULONG
    \<Rightarrow> (WCHAR list \<times> WCHAR list) list
    \<Rightarrow> (WCHAR list \<times> WCHAR list) list \<times> ULONG \<times> bool" where
  "query_loop k [] restart cursor acc = (acc, cursor, False)"
| "query_loop k (a # as) restart cursor acc =
    (let a1 = a\<lparr>RestartScan := restart, Context := cursor\<rparr>;
         r = NtQueryDirectoryObject k a1;
         cursor1 = (case ContextOut r of None \<Rightarrow> cursor | Some c \<Rightarrow> c);
         acc1 = acc @ delivered k a1 r
     in if ReturnStatus r = STATUS_NO_MORE_ENTRIES then (acc1, cursor1, True)
        else query_loop k as False cursor1 acc1)"

subsection \<open>An example: the directory with Foo and Bar, both of type Device\<close>

definition example_memory :: memory where
  "example_memory p =
     (case map_of [(1000, 70), (1002, 111), (1004, 111),
                   (2000, 66), (2002, 97), (2004, 114),
                   (3000, 68), (3002, 101), (3004, 118), (3006, 105), (3008, 99), (3010, 101)] p of
        None \<Rightarrow> 0
      | Some c \<Rightarrow> c)"

definition Foo :: ROS_OBJECT_HEADER where
  "Foo = \<lparr>Name = \<lparr>Length = 6, MaximumLength = 8, Buffer = 1000\<rparr>,
          TypeName = \<lparr>Length = 12, MaximumLength = 14, Buffer = 3000\<rparr>\<rparr>"

definition Bar :: ROS_OBJECT_HEADER where
  "Bar = \<lparr>Name = \<lparr>Length = 6, MaximumLength = 8, Buffer = 2000\<rparr>,
          TypeName = \<lparr>Length = 12, MaximumLength = 14, Buffer = 3000\<rparr>\<rparr>"

text \<open>A call from user mode, with 16 bytes for a record as on a 32-bit machine.\<close>

definition example_kernel :: "ROS_OBJECT_HEADER list \<Rightarrow> kernel" where
  "example_kernel entries =
     \<lparr>RecordSize = 16, PreviousMode = UserMode, Faults = no_faults,
      Resolved = STATUS_SUCCESS, Directory = entries, Allocated = True,
      Memory = example_memory\<rparr>"

definition example_args :: "ULONG \<Rightarrow> bool \<Rightarrow> bool \<Rightarrow> ULONG \<Rightarrow> query_args" where
  "example_args len single restart cursor =
     \<lparr>BufferAddress = 40000, BufferLength = len, ReturnSingleEntry = single,
      RestartScan = restart, Context = cursor, ReturnLength = True\<rparr>"

subsection \<open>A directory whose entries need more than \<open>2 ^ 32\<close> bytes\<close>

text \<open>
  32761 entries, each with a name of its own and the type name of their common type, of
  65534 bytes each. With records of 32 bytes an entry needs 131104 bytes, and the 32761
  entries need 4295098176 bytes with the record that ends the array. The character at
  an address is the number of its block of 65536 bytes, so that the name of the entry
  \<open>i\<close> consists of the character \<open>i + 1\<close>.
\<close>

definition long_entry :: "nat \<Rightarrow> ROS_OBJECT_HEADER" where
  "long_entry i =
     \<lparr>Name = \<lparr>Length = 65534, MaximumLength = 65534, Buffer = 65536 * (i + 1)\<rparr>,
      TypeName = \<lparr>Length = 65534, MaximumLength = 65534, Buffer = 65536 * 40000\<rparr>\<rparr>"

definition large_directory :: "ROS_OBJECT_HEADER list" where
  "large_directory = map long_entry [0..<32761]"

text \<open>A call from kernel mode, with 32 bytes for a record as on a 64-bit machine.\<close>

definition large_kernel :: kernel where
  "large_kernel =
     \<lparr>RecordSize = 32, PreviousMode = KernelMode, Faults = no_faults,
      Resolved = STATUS_SUCCESS, Directory = large_directory, Allocated = True,
      Memory = (\<lambda>p. of_nat (p div 65536))\<rparr>"

text \<open>A query for several entries with the largest BufferLength that a ULONG holds.\<close>

definition large_args :: "bool \<Rightarrow> ULONG \<Rightarrow> query_args" where
  "large_args restart cursor =
     \<lparr>BufferAddress = 4294967296, BufferLength = 0xFFFFFFFF, ReturnSingleEntry = False,
      RestartScan = restart, Context = cursor, ReturnLength = True\<rparr>"

section \<open>Properties\<close>

lemma NT_SUCCESS_simps:
  "NT_SUCCESS STATUS_SUCCESS" "NT_SUCCESS STATUS_MORE_ENTRIES"
  "\<not> NT_SUCCESS STATUS_NO_MORE_ENTRIES" "\<not> NT_SUCCESS STATUS_BUFFER_TOO_SMALL"
  "\<not> NT_SUCCESS STATUS_INSUFFICIENT_RESOURCES"
  by (simp_all add: NT_SUCCESS_def STATUS_SUCCESS_def STATUS_MORE_ENTRIES_def
      STATUS_NO_MORE_ENTRIES_def STATUS_BUFFER_TOO_SMALL_def STATUS_INSUFFICIENT_RESOURCES_def)

subsection \<open>Sizes in machine words\<close>

lemma unat_USHORT_bound: "unat (x :: 16 word) \<le> 65535"
  using unsigned_less [of x, where 'a = nat] by simp

lemma unat_ucast_16_32: "unat (ucast (x :: 16 word) :: 32 word) = unat x"
proof -
  have "unat x < 2 ^ 32"
    using unat_USHORT_bound [of x] by simp
  then show ?thesis
    by (simp add: unsigned_ucast_eq take_bit_nat_eq_self)
qed

lemma unat_EntrySize:
  assumes "unat sz + 131074 < 2 ^ 32"
  shows "unat (EntrySize_of sz e) = spec_entrySize (unat sz) e"
proof -
  let ?n = "Length (Name e)" and ?t = "Length (TypeName e)"
  have n: "unat ?n \<le> 65535" and t: "unat ?t \<le> 65535"
    by (rule unat_USHORT_bound)+
  have a: "unat (ucast ?n + 2 :: 32 word) = unat ?n + 2"
    using n by (simp add: unat_word_ariths unat_ucast_16_32)
  let ?a = "(if ?n \<noteq> 0 then ucast ?n + 2 else 0) :: 32 word"
  have ua: "unat ?a = (if ?n \<noteq> 0 then unat ?n + 2 else 0)"
    using a by simp
  have b: "unat (sz + ?a) = unat sz + unat ?a"
    using assms n ua by (subst unat_add_lem [THEN iffD1]) auto
  have c: "unat (sz + ?a + ucast ?t) = unat sz + unat ?a + unat ?t"
    using assms n t ua b by (subst unat_add_lem [THEN iffD1]) (auto simp: unat_ucast_16_32)
  have d: "unat (sz + ?a + ucast ?t + 2) = unat sz + unat ?a + unat ?t + 2"
    using assms n t ua c by (subst unat_add_lem [THEN iffD1]) (auto simp: unat_ucast_16_32)
  show ?thesis
    unfolding EntrySize_of_def spec_entrySize_def using d ua by simp
qed

lemma spec_entrySize_bounds:
  "rs + 2 \<le> spec_entrySize rs e" "spec_entrySize rs e \<le> rs + 131074"
  using unat_USHORT_bound [of "Length (Name e)"] unat_USHORT_bound [of "Length (TypeName e)"]
  by (auto simp: spec_entrySize_def)


subsection \<open>The first loop computes the scan of the specification\<close>

lemma scan_all_skipped:
  "length xs \<le> unat (SkipEntries s) \<Longrightarrow>
   scan sz len single xs s =
     (s\<lparr>SkipEntries := SkipEntries s - of_nat (length xs),
        NextEntry := NextEntry s + of_nat (length xs),
        Events := Events s @ replicate (Suc (length xs)) ReadLinkage\<rparr>, False)"
proof (induction xs arbitrary: s)
  case Nil
  then show ?case by simp
next
  case (Cons x xs)
  from Cons.prems have pos: "SkipEntries s \<noteq> 0"
    by (auto simp: unat_eq_0 [symmetric] simp del: unat_eq_0)
  then have "unat (SkipEntries s - 1) = unat (SkipEntries s) - 1"
    by (simp add: unat_minus_one)
  with Cons.prems have le: "length xs \<le> unat (SkipEntries s - 1)"
    by simp
  let ?s = "s\<lparr>NextEntry := NextEntry s + 1, Events := Events s @ [ReadLinkage],
              SkipEntries := SkipEntries s - 1\<rparr>"
  have "scan sz len single (x # xs) s = scan sz len single xs ?s"
    using pos by (simp add: Let_def)
  also have "\<dots> = (?s\<lparr>SkipEntries := SkipEntries ?s - of_nat (length xs),
        NextEntry := NextEntry ?s + of_nat (length xs),
        Events := Events ?s @ replicate (Suc (length xs)) ReadLinkage\<rparr>, False)"
    using le by (intro Cons.IH) simp
  finally show ?case
    by (simp add: replicate_append_same algebra_simps)
qed

lemma scan_skip:
  "unat (SkipEntries s) \<le> length xs \<Longrightarrow>
   scan sz len single xs s =
   scan sz len single (drop (unat (SkipEntries s)) xs)
     (s\<lparr>SkipEntries := 0, NextEntry := NextEntry s + SkipEntries s,
        Events := Events s @ replicate (unat (SkipEntries s)) ReadLinkage\<rparr>)"
proof (induction xs arbitrary: s)
  case Nil
  then have "SkipEntries s = 0" by (simp add: unat_eq_0)
  then have eq: "s\<lparr>SkipEntries := 0, NextEntry := NextEntry s + SkipEntries s,
      Events := Events s @ replicate (unat (SkipEntries s)) ReadLinkage\<rparr> = s"
    by (cases s) simp
  show ?case by (simp only: eq drop_Nil)
next
  case (Cons x xs)
  show ?case
  proof (cases "SkipEntries s = 0")
    case True
    then have eq: "s\<lparr>SkipEntries := 0, NextEntry := NextEntry s + SkipEntries s,
        Events := Events s @ replicate (unat (SkipEntries s)) ReadLinkage\<rparr> = s"
      by (cases s) simp
    from True have "drop (unat (SkipEntries s)) (x # xs) = x # xs"
      by simp
    then show ?thesis by (simp only: eq)
  next
    case False
    then have u: "unat (SkipEntries s) = Suc (unat (SkipEntries s - 1))"
      by (simp add: unat_minus_one unat_gt_0)
    let ?s = "s\<lparr>NextEntry := NextEntry s + 1, Events := Events s @ [ReadLinkage],
                SkipEntries := SkipEntries s - 1\<rparr>"
    have le: "unat (SkipEntries ?s) \<le> length xs"
      using Cons.prems u by simp
    have step: "scan sz len single (x # xs) s = scan sz len single xs ?s"
      using False by (simp add: Let_def)
    have ih: "scan sz len single xs ?s = scan sz len single (drop (unat (SkipEntries ?s)) xs)
       (?s\<lparr>SkipEntries := 0, NextEntry := NextEntry ?s + SkipEntries ?s,
          Events := Events ?s @ replicate (unat (SkipEntries ?s)) ReadLinkage\<rparr>)"
      using le by (rule Cons.IH)
    have d: "drop (unat (SkipEntries s)) (x # xs) = drop (unat (SkipEntries ?s)) xs"
      using u by simp
    have "replicate (unat (SkipEntries s)) ReadLinkage
        = ReadLinkage # replicate (unat (SkipEntries s - 1)) ReadLinkage"
      by (subst u) simp
    then have r: "s\<lparr>SkipEntries := 0, NextEntry := NextEntry s + SkipEntries s,
          Events := Events s @ replicate (unat (SkipEntries s)) ReadLinkage\<rparr>
       = ?s\<lparr>SkipEntries := 0, NextEntry := NextEntry ?s + SkipEntries ?s,
          Events := Events ?s @ replicate (unat (SkipEntries ?s)) ReadLinkage\<rparr>"
      by simp
    show ?thesis
      unfolding step d r by (rule ih)
  qed
qed


lemma spec_scan_prefix:
  "fst (spec_scan rs bl single xs req) = take (length (fst (spec_scan rs bl single xs req))) xs"
  by (induction rs bl single xs req rule: spec_scan.induct) (auto split: prod.splits)

lemma spec_scan_length:
  "length (fst (spec_scan rs bl single xs req)) \<le> length xs"
  by (induction rs bl single xs req rule: spec_scan.induct) (auto split: prod.splits)

lemma spec_scan_single:
  "single \<Longrightarrow> length (fst (spec_scan rs bl single xs req)) \<le> 1"
  by (cases xs) auto

lemma spec_scan_required:
  "fst (spec_scan rs bl single xs req) \<noteq> [] \<Longrightarrow>
   snd (spec_scan rs bl single xs req)
     = req + sum_list (map (spec_entrySize rs) (fst (spec_scan rs bl single xs req)))
   \<and> snd (spec_scan rs bl single xs req) \<le> bl"
proof (induction xs arbitrary: req)
  case Nil
  then show ?case by simp
next
  case (Cons x xs)
  show ?case
  proof (cases "req + spec_entrySize rs x \<le> bl")
    case False
    with Cons.prems show ?thesis by simp
  next
    case fits: True
    show ?thesis
    proof (cases "single \<or> fst (spec_scan rs bl single xs (req + spec_entrySize rs x)) = []")
      case True
      with fits show ?thesis
        by (cases xs) (auto split: prod.splits if_splits)
    next
      case False
      with Cons.IH [of "req + spec_entrySize rs x"] fits show ?thesis
        by (auto split: prod.splits)
    qed
  qed
qed

lemma scan_examine:
  assumes skip: "SkipEntries s = 0"
    and sz: "0 < unat sz"
    and range: "unat len + 2 * unat sz + 131074 < 2 ^ 32"
    and req: "unat (RequiredSize s) \<le> unat len + unat sz"
    and recs: "(unat (nDirectories s) + 1) * unat sz \<le> unat (RequiredSize s)"
  shows "case scan sz len single xs s of (s', left) \<Rightarrow>
         case spec_scan (unat sz) (unat len) single xs (unat (RequiredSize s)) of (st, r) \<Rightarrow>
           DirInfo s' = DirInfo s @ map staged_record st
         \<and> unat (RequiredSize s') = r
         \<and> unat (nDirectories s') = unat (nDirectories s) + length st
         \<and> NextEntry s' = NextEntry s + of_nat (length st)
         \<and> SkipEntries s' = 0
         \<and> left = (if single then xs \<noteq> [] else length st < length xs)
         \<and> Status s' = (if st \<noteq> [] then STATUS_SUCCESS
                        else if single \<and> xs \<noteq> [] then STATUS_BUFFER_TOO_SMALL
                        else Status s)"
  using skip req recs
proof (induction xs arbitrary: s)
  case Nil
  then show ?case by simp
next
  case (Cons x xs)
  let ?es = "EntrySize_of sz x"
  have es: "unat ?es = spec_entrySize (unat sz) x"
    using range by (intro unat_EntrySize) simp
  have esb: "unat sz + 2 \<le> unat ?es" "unat ?es \<le> unat sz + 131074"
    unfolding es by (rule spec_entrySize_bounds)+
  have sum: "unat (RequiredSize s + ?es) = unat (RequiredSize s) + unat ?es"
    using Cons.prems(2) esb range by (subst unat_add_lem [THEN iffD1]) auto
  have fits: "RequiredSize s + ?es \<le> len
      \<longleftrightarrow> unat (RequiredSize s) + spec_entrySize (unat sz) x \<le> unat len"
    by (simp add: word_le_nat_alt sum es)
  let ?s = "s\<lparr>NextEntry := NextEntry s + 1, Events := Events s @ [ReadLinkage]\<rparr>"
  show ?case
  proof (cases "RequiredSize s + ?es \<le> len")
    case False
    with Cons.prems(1) fits sum es show ?thesis
      by (simp add: Let_def)
  next
    case True
    let ?s1 = "?s\<lparr>DirInfo := DirInfo ?s @ [staged_record x],
        nDirectories := nDirectories ?s + 1,
        RequiredSize := RequiredSize ?s + ?es,
        Status := STATUS_SUCCESS,
        Events := Events ?s @ [ReadDescriptor,
          WriteScratch (unat (nDirectories ?s) * unat sz) (unat sz)]\<rparr>"
    from True fits have le: "unat (RequiredSize s) + unat ?es \<le> unat len"
      by (simp add: es)
    have "unat (nDirectories s) + 1 \<le> (unat (nDirectories s) + 1) * unat sz"
      using sz by (cases "unat sz") simp_all
    with Cons.prems(3) le range have "unat (nDirectories s) + unat (1 :: 32 word) < 2 ^ 32"
      by simp
    then have n: "unat (nDirectories s + 1) = unat (nDirectories s) + 1"
      by (subst unat_add_lem [THEN iffD1]) auto
    show ?thesis
    proof (cases single)
      case True
      with \<open>RequiredSize s + ?es \<le> len\<close> Cons.prems(1) fits sum es n show ?thesis
        by (simp add: Let_def)
    next
      case False
      have ih: "case scan sz len single xs ?s1 of (s', left) \<Rightarrow>
         case spec_scan (unat sz) (unat len) single xs (unat (RequiredSize ?s1)) of (st, r) \<Rightarrow>
           DirInfo s' = DirInfo ?s1 @ map staged_record st
         \<and> unat (RequiredSize s') = r
         \<and> unat (nDirectories s') = unat (nDirectories ?s1) + length st
         \<and> NextEntry s' = NextEntry ?s1 + of_nat (length st)
         \<and> SkipEntries s' = 0
         \<and> left = (if single then xs \<noteq> [] else length st < length xs)
         \<and> Status s' = (if st \<noteq> [] then STATUS_SUCCESS
                        else if single \<and> xs \<noteq> [] then STATUS_BUFFER_TOO_SMALL
                        else Status ?s1)"
      proof (rule Cons.IH)
        show "SkipEntries ?s1 = 0" using Cons.prems(1) by simp
        show "unat (RequiredSize ?s1) \<le> unat len + unat sz" using le sum by simp
        have "(unat (nDirectories s) + 2) * unat sz
            = (unat (nDirectories s) + 1) * unat sz + unat sz"
          by (simp add: algebra_simps)
        then show "(unat (nDirectories ?s1) + 1) * unat sz \<le> unat (RequiredSize ?s1)"
          using Cons.prems(3) esb n sum by simp
      qed
      have step: "scan sz len single (x # xs) s = scan sz len single xs ?s1"
        using \<open>RequiredSize s + ?es \<le> len\<close> Cons.prems(1) False by (simp add: Let_def)
      have sstep: "spec_scan (unat sz) (unat len) single (x # xs) (unat (RequiredSize s))
        = (case spec_scan (unat sz) (unat len) single xs (unat (RequiredSize ?s1)) of
             (st, r) \<Rightarrow> (x # st, r))"
        using le False by (simp add: es sum)
      show ?thesis
        unfolding step sstep using ih False n
        by (auto split: prod.splits)
    qed
  qed
qed

lemma scan_call:
  assumes sz: "0 < unat sz" and range: "unat len + 2 * unat sz + 131074 < 2 ^ 32"
  shows "case scan sz len single xs
                \<lparr>SkipEntries = skip, NextEntry = 0, RequiredSize = sz, nDirectories = 0,
                 Status = STATUS_NO_MORE_ENTRIES, DirInfo = [], Events = ev\<rparr> of (s, left) \<Rightarrow>
         case spec_scan (unat sz) (unat len) single (drop (unat skip) xs) (unat sz) of (st, r) \<Rightarrow>
           DirInfo s = map staged_record st
         \<and> unat (RequiredSize s) = r
         \<and> unat (nDirectories s) = length st
         \<and> NextEntry s = of_nat (min (unat skip) (length xs) + length st)
         \<and> left = (if single then unat skip < length xs else unat skip + length st < length xs)
         \<and> Status s = (if st \<noteq> [] then STATUS_SUCCESS
                        else if single \<and> unat skip < length xs then STATUS_BUFFER_TOO_SMALL
                        else STATUS_NO_MORE_ENTRIES)"
proof (cases "unat skip \<le> length xs")
  case False
  then have "length xs \<le> unat skip" by simp
  then show ?thesis
    using False by (subst scan_all_skipped) (simp_all add: min_def)
next
  case True
  let ?init = "\<lparr>SkipEntries = skip, NextEntry = 0, RequiredSize = sz, nDirectories = 0,
                 Status = STATUS_NO_MORE_ENTRIES, DirInfo = [], Events = ev\<rparr>"
  let ?s = "?init\<lparr>SkipEntries := 0, NextEntry := NextEntry ?init + SkipEntries ?init,
        Events := Events ?init @ replicate (unat (SkipEntries ?init)) ReadLinkage\<rparr>"
  have skip: "scan sz len single xs ?init = scan sz len single (drop (unat skip) xs) ?s"
    using True scan_skip [of ?init xs sz len single] by simp
  have ex: "case scan sz len single (drop (unat skip) xs) ?s of (s', left) \<Rightarrow>
         case spec_scan (unat sz) (unat len) single (drop (unat skip) xs) (unat (RequiredSize ?s)) of (st, r) \<Rightarrow>
           DirInfo s' = DirInfo ?s @ map staged_record st
         \<and> unat (RequiredSize s') = r
         \<and> unat (nDirectories s') = unat (nDirectories ?s) + length st
         \<and> NextEntry s' = NextEntry ?s + of_nat (length st)
         \<and> SkipEntries s' = 0
         \<and> left = (if single then drop (unat skip) xs \<noteq> [] else length st < length (drop (unat skip) xs))
         \<and> Status s' = (if st \<noteq> [] then STATUS_SUCCESS
                        else if single \<and> drop (unat skip) xs \<noteq> [] then STATUS_BUFFER_TOO_SMALL
                        else Status ?s)"
    using sz range by (intro scan_examine) simp_all
  show ?thesis
    unfolding skip using ex True
    by (auto simp: min_def split: prod.splits)
qed

subsection \<open>The second loop lays the strings out\<close>

lemma length_read_wstr [simp]: "length (read_wstr mem p n) = n"
  by (simp add: read_wstr_def)

lemma length_name_chars [simp]: "length (name_chars mem u) = unat (Length u) div 2"
  by (simp add: name_chars_def)

lemma length_heap_chars [simp]: "length (heap_chars mem e) = heap_length e"
  by (simp add: heap_chars_def heap_length_def)

lemma ucast_half: "(ucast (x :: 16 word) :: 32 word) div 2 = of_nat (unat x div 2)"
proof -
  have "(ucast x :: 32 word) div 2 = of_nat (unat (ucast x :: 32 word) div unat (2 :: 32 word))"
    by (rule word_arith_nat_div)
  then show ?thesis
    by (simp add: unat_ucast_16_32)
qed

lemma word_gt_0_iff: "(0 < (x :: 16 word)) = (x \<noteq> 0)"
  by (simp add: word_greater_zero_iff)

lemma compact_record_fields:
  "Heap (compact_record mem sz (staged_record e) c) = Heap c @ heap_chars mem e"
  "Records (compact_record mem sz (staged_record e) c)
     = Records c @ [delivered_record (deststrbuf c) e]"
  "strbuf (compact_record mem sz (staged_record e) c) = strbuf c + 2 * heap_length e"
  "deststrbuf (compact_record mem sz (staged_record e) c) = deststrbuf c + 2 * heap_length e"
  "CopyBytes (compact_record mem sz (staged_record e) c)
     = CopyBytes c + of_nat (2 * heap_length e)"
  by (simp_all add: compact_record_def copy_string_def staged_record_def Let_def heap_chars_def
      heap_length_def delivered_record_def name_chars_def ucast_half word_gt_0_iff
      algebra_simps split: prod.splits)

lemma compact_fields:
  "Heap (compact mem sz (map staged_record es) c) = Heap c @ concat (map (heap_chars mem) es)
   \<and> Records (compact mem sz (map staged_record es) c)
       = Records c @ spec_records (deststrbuf c) es
   \<and> strbuf (compact mem sz (map staged_record es) c)
       = strbuf c + 2 * sum_list (map heap_length es)
   \<and> deststrbuf (compact mem sz (map staged_record es) c)
       = deststrbuf c + 2 * sum_list (map heap_length es)
   \<and> CopyBytes (compact mem sz (map staged_record es) c)
       = CopyBytes c + of_nat (2 * sum_list (map heap_length es))"
proof (induction es arbitrary: c)
  case Nil
  then show ?case by simp
next
  case (Cons e es)
  show ?case
    by (simp add: Cons.IH compact_record_fields algebra_simps)
qed

subsection \<open>What a served call returns\<close>

lemma heap_length_le: "rs + 2 * heap_length e \<le> spec_entrySize rs e"
proof -
  have "2 * (unat (Length (Name e)) div 2) \<le> unat (Length (Name e))"
    and "2 * (unat (Length (TypeName e)) div 2) \<le> unat (Length (TypeName e))"
    by simp_all
  then show ?thesis
    unfolding heap_length_def spec_entrySize_def by (cases "Length (Name e) = 0") simp_all
qed

lemma heap_lengths_le:
  "length es * rs + 2 * sum_list (map heap_length es) \<le> sum_list (map (spec_entrySize rs) es)"
proof (induction es)
  case Nil
  then show ?case by simp
next
  case (Cons e es)
  then show ?case
    using heap_length_le [of rs e] by (simp add: algebra_simps)
qed

lemma spec_scan_copy_bound:
  assumes "spec_scan rs bl single xs rs = (st, r)" and "st \<noteq> []"
  shows "(length st + 1) * rs + 2 * sum_list (map heap_length st) \<le> r" and "r \<le> bl"
proof -
  from assms spec_scan_required [of rs bl single xs rs]
  have r: "r = rs + sum_list (map (spec_entrySize rs) st)" and "r \<le> bl"
    by simp_all
  then show "r \<le> bl" by simp
  from r heap_lengths_le [of st rs]
  show "(length st + 1) * rs + 2 * sum_list (map heap_length st) \<le> r"
    by (simp add: algebra_simps)
qed

lemma compact_block_fields:
  assumes "DirInfo s = map staged_record st"
  shows "Records (compact_block mem sz buf s)
           = spec_records (buf + (unat (nDirectories s) + 1) * unat sz) st @ [zero_record]"
    and "Heap (compact_block mem sz buf s) = concat (map (heap_chars mem) st)"
    and "CopyBytes (compact_block mem sz buf s)
           = of_nat ((unat (nDirectories s) + 1) * unat sz + 2 * sum_list (map heap_length st))"
  using compact_fields [of mem sz st]
  by (simp_all add: compact_block_def Let_def assms algebra_simps)

lemma length_spec_records [simp]: "length (spec_records p es) = length es"
  by (induction es arbitrary: p) simp_all

lemma length_heap: "length (concat (map (heap_chars mem) es)) = sum_list (map heap_length es)"
  by (simp add: length_concat comp_def)

lemma first_bytes_all:
  "n = length recs * sz + 2 * length heap \<Longrightarrow> first_bytes sz n recs heap = (recs, heap)"
  by (simp add: first_bytes_def)

lemma deliver_no_faults:
  "deliver sz no_faults a st s c ev =
     \<lparr>ReturnStatus = st,
      QueryEvents = ev @ (if CopyBytes c \<noteq> 0 then [Caller CopyBuffer] else [])
        @ [Caller WriteContext] @ (if ReturnLength a then [Caller WriteReturnLength] else [])
        @ [ExFreePool],
      BufferOut = (if CopyBytes c \<noteq> 0
                   then Some (first_bytes (unat sz) (unat (CopyBytes c)) (Records c) (Heap c))
                   else None),
      BytesCopied = CopyBytes c,
      ContextOut = Some (NextEntry s),
      ReturnLengthOut = (if ReturnLength a then Some (RequiredSize s) else None)\<rparr>"
  by (simp add: deliver_def no_faults_def Let_def)

lemma scan_and_deliver_fields:
  fixes ev :: "event list"
  assumes flt: "Faults k = no_faults" and range: "in_range k a"
    and sp: "spec_scan (unat (RecordSize k)) (unat (BufferLength a)) (ReturnSingleEntry a)
               (drop (unat skip) (Directory k)) (unat (RecordSize k)) = (st, r)"
  defines "res \<equiv> scan_and_deliver k a skip ev"
    and "written \<equiv> st \<noteq> [] \<or> ReturnSingleEntry a \<or> unat skip < length (Directory k)"
  shows "ReturnStatus res =
           (if st \<noteq> []
            then (if \<not> ReturnSingleEntry a \<and> unat skip + length st < length (Directory k)
                  then STATUS_MORE_ENTRIES else STATUS_SUCCESS)
            else if unat skip < length (Directory k)
            then (if ReturnSingleEntry a then STATUS_BUFFER_TOO_SMALL else STATUS_MORE_ENTRIES)
            else STATUS_NO_MORE_ENTRIES)"
    and "ContextOut res =
           (if written then Some (of_nat (min (unat skip) (length (Directory k)) + length st))
            else None)"
    and "ReturnLengthOut res = (if written \<and> ReturnLength a then Some (of_nat r) else None)"
    and "BufferOut res =
           (if st \<noteq> []
            then Some (spec_records (BufferAddress a + (length st + 1) * unat (RecordSize k)) st
                         @ [zero_record],
                       concat (map (heap_chars (Memory k)) st))
            else None)"
    and "unat (BytesCopied res) =
           (if st \<noteq> []
            then (length st + 1) * unat (RecordSize k) + 2 * sum_list (map heap_length st)
            else 0)"
proof -
  let ?sz = "RecordSize k" and ?len = "BufferLength a" and ?single = "ReturnSingleEntry a"
  let ?xs = "Directory k"
  let ?init = "\<lparr>SkipEntries = skip, NextEntry = 0, RequiredSize = ?sz, nDirectories = 0,
                 Status = STATUS_NO_MORE_ENTRIES, DirInfo = [],
                 Events = ev @ [KeAcquireSpinLock]\<rparr>"
  obtain s left where sc: "scan ?sz ?len ?single ?xs ?init = (s, left)"
    by (cases "scan ?sz ?len ?single ?xs ?init")
  from range have sz: "0 < unat ?sz" and rg: "unat ?len + 2 * unat ?sz + 131074 < 2 ^ 32"
    by (simp_all add: in_range_def)
  from scan_call [OF sz rg, where single = ?single and xs = ?xs and skip = skip
      and ev = "ev @ [KeAcquireSpinLock]"] sc sp
  have di: "DirInfo s = map staged_record st"
    and rq: "unat (RequiredSize s) = r"
    and nd: "unat (nDirectories s) = length st"
    and ne: "NextEntry s = of_nat (min (unat skip) (length ?xs) + length st)"
    and lf: "left = (if ?single then unat skip < length ?xs
                     else unat skip + length st < length ?xs)"
    and st: "Status s = (if st \<noteq> [] then STATUS_SUCCESS
                        else if ?single \<and> unat skip < length ?xs then STATUS_BUFFER_TOO_SMALL
                        else STATUS_NO_MORE_ENTRIES)"
    by simp_all
  from rq have rq': "RequiredSize s = of_nat r"
    by (metis of_nat_unat ucast_id)
  from nd have pos: "nDirectories s > 0 \<longleftrightarrow> st \<noteq> []"
    by (simp add: word_less_nat_alt)
  define st1 where "st1 = (if \<not> ?single \<and> left then STATUS_MORE_ENTRIES else Status s)"
  define c where "c = (if NT_SUCCESS st1 \<and> nDirectories s > 0
               then compact_block (Memory k) ?sz (BufferAddress a) s
               else \<lparr>strbuf = 0, deststrbuf = 0, CopyBytes = 0, Records = [],
                     Heap = [], CEvents = Events s\<rparr>)"
  have res: "res = (if NT_SUCCESS st1 \<or> ?single
      then deliver ?sz no_faults a st1 s c (CEvents c @ [KeReleaseSpinLock, ObDereferenceObject])
      else untouched st1 (CEvents c @ [KeReleaseSpinLock, ObDereferenceObject, ExFreePool]))"
    by (simp add: res_def scan_and_deliver_def sc Let_def flt st1_def c_def)
  have st1: "st1 = (if st \<noteq> []
            then (if \<not> ?single \<and> unat skip + length st < length ?xs
                  then STATUS_MORE_ENTRIES else STATUS_SUCCESS)
            else if unat skip < length ?xs
            then (if ?single then STATUS_BUFFER_TOO_SMALL else STATUS_MORE_ENTRIES)
            else STATUS_NO_MORE_ENTRIES)"
    unfolding st1_def using lf st by auto
  have succ: "NT_SUCCESS st1 \<longleftrightarrow> st \<noteq> [] \<or> (\<not> ?single \<and> unat skip < length ?xs)"
    unfolding st1 by (simp add: NT_SUCCESS_simps)
  have wr: "NT_SUCCESS st1 \<or> ?single \<longleftrightarrow> written"
    unfolding succ written_def by auto
  have "ReturnStatus res = st1"
    unfolding res by (simp add: deliver_no_faults untouched_def)
  then show "ReturnStatus res =
           (if st \<noteq> []
            then (if \<not> ReturnSingleEntry a \<and> unat skip + length st < length (Directory k)
                  then STATUS_MORE_ENTRIES else STATUS_SUCCESS)
            else if unat skip < length (Directory k)
            then (if ReturnSingleEntry a then STATUS_BUFFER_TOO_SMALL else STATUS_MORE_ENTRIES)
            else STATUS_NO_MORE_ENTRIES)"
    by (simp only: st1)
  have "ContextOut res = (if written then Some (NextEntry s) else None)"
    unfolding res wr by (simp add: deliver_no_faults untouched_def)
  then show "ContextOut res =
           (if written then Some (of_nat (min (unat skip) (length (Directory k)) + length st))
            else None)"
    by (simp only: ne)
  have "ReturnLengthOut res = (if written \<and> ReturnLength a then Some (RequiredSize s) else None)"
    unfolding res wr by (simp add: deliver_no_faults untouched_def)
  then show "ReturnLengthOut res = (if written \<and> ReturnLength a then Some (of_nat r) else None)"
    by (simp only: rq')
  have cb: "st \<noteq> [] \<Longrightarrow> c = compact_block (Memory k) ?sz (BufferAddress a) s"
    and cn: "st = [] \<Longrightarrow> CopyBytes c = 0"
    unfolding c_def using succ pos by simp_all
  have copy: "st \<noteq> [] \<Longrightarrow>
      unat (CopyBytes c) = (length st + 1) * unat ?sz + 2 * sum_list (map heap_length st)"
  proof -
    assume ne: "st \<noteq> []"
    define N where "N = (length st + 1) * unat ?sz + 2 * sum_list (map heap_length st)"
    from spec_scan_copy_bound [OF sp ne] rg have "N < 2 ^ 32"
      by (simp add: N_def)
    then have "unat (of_nat N :: 32 word) = N"
      by (simp add: unat_of_nat)
    moreover have "CopyBytes c = of_nat N"
      unfolding N_def by (simp only: cb [OF ne] compact_block_fields(3) [OF di] nd)
    ultimately show ?thesis
      by (simp only: N_def)
  qed
  have nz: "CopyBytes c \<noteq> 0 \<longleftrightarrow> st \<noteq> []"
  proof
    assume "CopyBytes c \<noteq> 0"
    with cn show "st \<noteq> []" by auto
  next
    assume "st \<noteq> []"
    from copy [OF this] sz have "0 < unat (CopyBytes c)" by simp
    then show "CopyBytes c \<noteq> 0" by (simp add: unat_gt_0)
  qed
  have wn: "st \<noteq> [] \<Longrightarrow> written"
    by (simp add: written_def)
  have all: "first_bytes (unat ?sz) (unat (CopyBytes c)) (Records c) (Heap c)
      = (Records c, Heap c)" if "st \<noteq> []"
  proof (rule first_bytes_all)
    from cb [OF that] compact_block_fields(1,2) [OF di, of "Memory k" ?sz "BufferAddress a"]
    have "length (Records c) = length st + 1"
      and "length (Heap c) = sum_list (map heap_length st)"
      by (simp_all add: length_heap)
    with copy [OF that]
    show "unat (CopyBytes c) = length (Records c) * unat ?sz + 2 * length (Heap c)"
      by simp
  qed
  have "BufferOut res = (if st \<noteq> [] then Some (Records c, Heap c) else None)"
    unfolding res wr using nz wn all by (simp add: deliver_no_faults untouched_def)
  then show "BufferOut res =
           (if st \<noteq> []
            then Some (spec_records (BufferAddress a + (length st + 1) * unat (RecordSize k)) st
                         @ [zero_record],
                       concat (map (heap_chars (Memory k)) st))
            else None)"
    using cb compact_block_fields(1,2) [OF di, of "Memory k" ?sz "BufferAddress a"]
    by (simp add: nd)
  have "BytesCopied res = (if st \<noteq> [] then CopyBytes c else 0)"
    unfolding res wr using nz wn cn by (auto simp: deliver_no_faults untouched_def)
  then show "unat (BytesCopied res) =
           (if st \<noteq> []
            then (length st + 1) * unat (RecordSize k) + 2 * sum_list (map heap_length st)
            else 0)"
    using copy by simp
qed

lemma heap_string_at:
  assumes "Buffer u = base + 2 * length pre" and "length ws = unat (Length u) div 2"
  shows "heap_string base (pre @ ws @ post) u = ws"
  using assms by (simp add: heap_string_def)

lemma delivered_record_strings:
  "heap_string base (pre @ heap_chars mem e @ post)
       (ObjectName (delivered_record (base + 2 * length pre) e)) = fst (member_strings mem e)"
  "heap_string base (pre @ heap_chars mem e @ post)
       (ObjectTypeName (delivered_record (base + 2 * length pre) e)) = snd (member_strings mem e)"
proof -
  show "heap_string base (pre @ heap_chars mem e @ post)
       (ObjectName (delivered_record (base + 2 * length pre) e)) = fst (member_strings mem e)"
  proof (cases "Length (Name e) = 0")
    case True
    then show ?thesis
      by (simp add: delivered_record_def member_strings_def heap_string_def)
  next
    case False
    have "heap_string base (pre @ name_chars mem (Name e)
            @ ([0] @ name_chars mem (TypeName e) @ [0] @ post))
          ((Name e)\<lparr>Buffer := base + 2 * length pre\<rparr>) = name_chars mem (Name e)"
      by (rule heap_string_at) simp_all
    with False show ?thesis
      by (simp add: delivered_record_def member_strings_def heap_chars_def)
  qed
  show "heap_string base (pre @ heap_chars mem e @ post)
       (ObjectTypeName (delivered_record (base + 2 * length pre) e)) = snd (member_strings mem e)"
  proof (cases "Length (Name e) = 0")
    case True
    have "heap_string base (pre @ name_chars mem (TypeName e) @ ([0] @ post))
          ((TypeName e)\<lparr>Buffer := base + 2 * length pre\<rparr>) = name_chars mem (TypeName e)"
      by (rule heap_string_at) simp_all
    with True show ?thesis
      by (simp add: delivered_record_def member_strings_def heap_chars_def)
  next
    case False
    have "heap_string base ((pre @ name_chars mem (Name e) @ [0]) @ name_chars mem (TypeName e)
            @ ([0] @ post))
          ((TypeName e)\<lparr>Buffer := base + 2 * length (pre @ name_chars mem (Name e) @ [0])\<rparr>)
          = name_chars mem (TypeName e)"
      by (rule heap_string_at) simp_all
    with False show ?thesis
      by (simp add: delivered_record_def member_strings_def heap_chars_def algebra_simps)
  qed
qed

lemma spec_records_strings:
  "map (\<lambda>d. (heap_string base (pre @ concat (map (heap_chars mem) es)) (ObjectName d),
             heap_string base (pre @ concat (map (heap_chars mem) es)) (ObjectTypeName d)))
       (spec_records (base + 2 * length pre) es)
   = map (member_strings mem) es"
proof (induction es arbitrary: pre)
  case Nil
  then show ?case by simp
next
  case (Cons e es)
  let ?heap = "pre @ concat (map (heap_chars mem) (e # es))"
  have hd: "heap_string base ?heap (ObjectName (delivered_record (base + 2 * length pre) e))
        = fst (member_strings mem e)"
    "heap_string base ?heap (ObjectTypeName (delivered_record (base + 2 * length pre) e))
        = snd (member_strings mem e)"
    using delivered_record_strings [of base pre mem e "concat (map (heap_chars mem) es)"]
    by simp_all
  from Cons.IH [of "pre @ heap_chars mem e"]
  have ih: "map (\<lambda>d. (heap_string base ?heap (ObjectName d),
                       heap_string base ?heap (ObjectTypeName d)))
       (spec_records (base + 2 * length pre + 2 * heap_length e) es)
     = map (member_strings mem) es"
    by (simp add: add.assoc)
  show ?case
    using hd ih by (simp add: add.assoc)
qed

lemma delivered_spec:
  assumes "BufferOut r = Some (spec_records (BufferAddress a + (length st + 1) * unat (RecordSize k)) st
                         @ [zero_record], concat (map (heap_chars (Memory k)) st))"
  shows "delivered k a r = map (member_strings (Memory k)) st"
  using spec_records_strings [of "BufferAddress a + (length st + 1) * unat (RecordSize k)" "[]"
      "Memory k" st]
  by (simp add: delivered_def assms)

lemma capture_no_faults:
  "Faults k = no_faults \<Longrightarrow>
   \<exists>ev. capture_arguments k a = (STATUS_SUCCESS, if RestartScan a then 0 else Context a, ev)"
  by (simp add: capture_arguments_def probe_arguments_def no_faults_def Let_def)

lemma query_served:
  assumes "served k"
  shows "\<exists>ev. NtQueryDirectoryObject k a
           = scan_and_deliver k a (if RestartScan a then 0 else Context a) ev"
proof -
  from assms have flt: "Faults k = no_faults" and rs: "NT_SUCCESS (Resolved k)" and al: "Allocated k"
    by (simp_all add: served_def)
  from capture_no_faults [OF flt] obtain ev
    where "capture_arguments k a = (STATUS_SUCCESS, if RestartScan a then 0 else Context a, ev)"
    by blast
  then show ?thesis
    using rs al by (auto simp: NtQueryDirectoryObject_def NT_SUCCESS_simps)
qed

lemma query_fields:
  assumes served: "served k" and range: "in_range k a"
    and sp: "spec_scan (unat (RecordSize k)) (unat (BufferLength a)) (ReturnSingleEntry a)
               (drop (skipped a) (Directory k)) (unat (RecordSize k)) = (st, r)"
  defines "res \<equiv> NtQueryDirectoryObject k a"
    and "written \<equiv> st \<noteq> [] \<or> ReturnSingleEntry a \<or> skipped a < length (Directory k)"
  shows "ReturnStatus res =
           (if st \<noteq> []
            then (if \<not> ReturnSingleEntry a \<and> skipped a + length st < length (Directory k)
                  then STATUS_MORE_ENTRIES else STATUS_SUCCESS)
            else if skipped a < length (Directory k)
            then (if ReturnSingleEntry a then STATUS_BUFFER_TOO_SMALL else STATUS_MORE_ENTRIES)
            else STATUS_NO_MORE_ENTRIES)"
    and "ContextOut res =
           (if written then Some (of_nat (min (skipped a) (length (Directory k)) + length st))
            else None)"
    and "ReturnLengthOut res = (if written \<and> ReturnLength a then Some (of_nat r) else None)"
    and "BufferOut res =
           (if st \<noteq> []
            then Some (spec_records (BufferAddress a + (length st + 1) * unat (RecordSize k)) st
                         @ [zero_record],
                       concat (map (heap_chars (Memory k)) st))
            else None)"
    and "unat (BytesCopied res) =
           (if st \<noteq> []
            then (length st + 1) * unat (RecordSize k) + 2 * sum_list (map heap_length st)
            else 0)"
    and "delivered k a res = map (member_strings (Memory k)) st"
proof -
  let ?skip = "if RestartScan a then 0 else Context a"
  have sk: "unat ?skip = skipped a"
    by (simp add: skipped_def)
  from query_served [OF served] obtain ev where q: "res = scan_and_deliver k a ?skip ev"
    unfolding res_def by blast
  from served have flt: "Faults k = no_faults"
    by (simp add: served_def)
  note f = scan_and_deliver_fields [OF flt range, of ?skip, unfolded sk, OF sp, of ev, folded q]
  show "ReturnStatus res =
           (if st \<noteq> []
            then (if \<not> ReturnSingleEntry a \<and> skipped a + length st < length (Directory k)
                  then STATUS_MORE_ENTRIES else STATUS_SUCCESS)
            else if skipped a < length (Directory k)
            then (if ReturnSingleEntry a then STATUS_BUFFER_TOO_SMALL else STATUS_MORE_ENTRIES)
            else STATUS_NO_MORE_ENTRIES)"
    by (rule f(1))
  show "ContextOut res =
           (if written then Some (of_nat (min (skipped a) (length (Directory k)) + length st))
            else None)"
    unfolding written_def by (rule f(2))
  show "ReturnLengthOut res = (if written \<and> ReturnLength a then Some (of_nat r) else None)"
    unfolding written_def by (rule f(3))
  show b: "BufferOut res =
           (if st \<noteq> []
            then Some (spec_records (BufferAddress a + (length st + 1) * unat (RecordSize k)) st
                         @ [zero_record],
                       concat (map (heap_chars (Memory k)) st))
            else None)"
    by (rule f(4))
  show "unat (BytesCopied res) =
           (if st \<noteq> []
            then (length st + 1) * unat (RecordSize k) + 2 * sum_list (map heap_length st)
            else 0)"
    by (rule f(5))
  show "delivered k a res = map (member_strings (Memory k)) st"
  proof (cases "st = []")
    case True
    with b show ?thesis by (simp add: delivered_def)
  next
    case False
    with b show ?thesis by (intro delivered_spec) simp
  qed
qed

subsection \<open>Evaluating the example\<close>

lemmas query_defs = NtQueryDirectoryObject_def capture_arguments_def probe_arguments_def
  no_faults_def scan_and_deliver_def Let_def EntrySize_of_def staged_record_def
  NT_SUCCESS_def STATUS_SUCCESS_def STATUS_MORE_ENTRIES_def STATUS_NO_MORE_ENTRIES_def
  STATUS_BUFFER_TOO_SMALL_def STATUS_INSUFFICIENT_RESOURCES_def
  compact_block_def compact_record_def copy_string_def
  deliver_def first_bytes_def untouched_def zero_record_def NULL_def

lemmas example_defs = example_kernel_def example_args_def Foo_def Bar_def example_memory_def

lemma example_kernel_fields [simp]:
  "RecordSize (example_kernel xs) = 16" "Directory (example_kernel xs) = xs"
  "Memory (example_kernel xs) = example_memory"
  by (simp_all add: example_kernel_def)

lemma example_args_fields [simp]:
  "BufferLength (example_args len s r c) = len" "ReturnSingleEntry (example_args len s r c) = s"
  "RestartScan (example_args len s r c) = r" "Context (example_args len s r c) = c"
  "ReturnLength (example_args len s r c)" "BufferAddress (example_args len s r c) = 40000"
  by (simp_all add: example_args_def)

lemma example_served: "served (example_kernel xs)"
  by (simp add: served_def example_kernel_def NT_SUCCESS_simps)

lemma example_in_range: "unat len < 2 ^ 31 \<Longrightarrow> in_range (example_kernel xs) (example_args len s r c)"
  by (simp add: in_range_def)

lemma example_sizes [simp]: "spec_entrySize 16 Foo = 38" "spec_entrySize 16 Bar = 38"
  by (simp_all add: spec_entrySize_def Foo_def Bar_def)

lemma example_strings [simp]:
  "member_strings example_memory Foo = ([70, 111, 111], [68, 101, 118, 105, 99, 101])"
  "member_strings example_memory Bar = ([66, 97, 114], [68, 101, 118, 105, 99, 101])"
  by (simp_all add: member_strings_def name_chars_def read_wstr_def Foo_def Bar_def
      example_memory_def upt_rec [of _ "numeral _"] upt_rec [of _ "Suc _"])

lemma read_wstr_Suc: "read_wstr mem p (Suc n) = mem p # read_wstr mem (p + 2) n"
proof -
  have "[0..<Suc n] = 0 # map Suc [0..<n]"
    by (simp add: upt_conv_Cons map_Suc_upt del: upt_Suc)
  then show ?thesis
    by (simp add: read_wstr_def comp_def del: upt_Suc)
qed

lemma read_wstr_eval:
  "read_wstr mem p 0 = []"
  "read_wstr mem p (Suc 0) = [mem p]"
  "read_wstr mem p (numeral m) = mem p # read_wstr mem (p + 2) (pred_numeral m)"
  using read_wstr_Suc [of mem p 0] read_wstr_Suc [of mem p "pred_numeral m"]
  by (simp_all add: read_wstr_def numeral_eq_Suc)

lemma example_first_records:
  "BufferOut (NtQueryDirectoryObject (example_kernel [Foo, Bar]) (example_args 60 False True 0))
   = Some ([\<lparr>ObjectName = \<lparr>Length = 6, MaximumLength = 8, Buffer = 40032\<rparr>,
             ObjectTypeName = \<lparr>Length = 12, MaximumLength = 14, Buffer = 40040\<rparr>\<rparr>,
            zero_record],
           [70, 111, 111, 0, 68, 101, 118, 105, 99, 101, 0])"
  by (simp add: query_defs example_defs read_wstr_eval)

subsection \<open>Evaluating the large directory\<close>

text \<open>
  With a BufferLength of \<open>2 ^ 32 - 1\<close> the test \<open>RequiredSize + EntrySize <= BufferLength\<close>
  holds for every entry, the sum being a ULONG: a query for several entries stages every
  entry that it does not skip.
\<close>

lemma scan_whole_range:
  "SkipEntries s = 0 \<Longrightarrow>
   (case scan sz (- 1) False xs s of (s', left) \<Rightarrow>
      DirInfo s' = DirInfo s @ map staged_record xs
    \<and> nDirectories s' = nDirectories s + of_nat (length xs)
    \<and> RequiredSize s' = RequiredSize s + sum_list (map (EntrySize_of sz) xs)
    \<and> NextEntry s' = NextEntry s + of_nat (length xs)
    \<and> Status s' = (if xs = [] then Status s else STATUS_SUCCESS)
    \<and> \<not> left)"
proof (induction xs arbitrary: s)
  case Nil
  then show ?case by simp
next
  case (Cons x xs)
  let ?s = "s\<lparr>NextEntry := NextEntry s + 1, Events := Events s @ [ReadLinkage]\<rparr>"
  let ?s1 = "?s\<lparr>DirInfo := DirInfo ?s @ [staged_record x],
        nDirectories := nDirectories ?s + 1,
        RequiredSize := RequiredSize ?s + EntrySize_of sz x,
        Status := STATUS_SUCCESS,
        Events := Events ?s @ [ReadDescriptor,
          WriteScratch (unat (nDirectories ?s) * unat sz) (unat sz)]\<rparr>"
  have step: "scan sz (- 1) False (x # xs) s = scan sz (- 1) False xs ?s1"
    using Cons.prems by (simp add: Let_def)
  from Cons.prems have "SkipEntries ?s1 = 0"
    by simp
  from Cons.IH [OF this] show ?case
    unfolding step by (simp add: algebra_simps split: prod.splits)
qed

lemma sum_list_same:
  fixes c :: "'a :: semiring_1"
  assumes "\<And>x. x \<in> set xs \<Longrightarrow> f x = c"
  shows "sum_list (map f xs) = of_nat (length xs) * c"
  using assms by (induction xs) (simp_all add: algebra_simps)

lemma large_directory_length: "length large_directory = 32761"
  by (simp add: large_directory_def)

lemma large_directory_sizes:
  assumes "e \<in> set large_directory"
  shows "EntrySize_of 32 e = 131104" and "spec_entrySize 32 e = 131104"
    and "heap_length e = 65536" and "Length (TypeName e) = 65534"
  using assms
  by (auto simp: large_directory_def long_entry_def EntrySize_of_def spec_entrySize_def
      heap_length_def)

lemma large_kernel_fields [simp]:
  "RecordSize large_kernel = 32" "PreviousMode large_kernel = KernelMode"
  "Faults large_kernel = no_faults" "Resolved large_kernel = STATUS_SUCCESS"
  "Directory large_kernel = large_directory" "Allocated large_kernel"
  by (simp_all add: large_kernel_def)

lemma large_args_fields [simp]:
  "BufferAddress (large_args r c) = 4294967296" "BufferLength (large_args r c) = - 1"
  "\<not> ReturnSingleEntry (large_args r c)" "RestartScan (large_args r c) = r"
  "Context (large_args r c) = c" "ReturnLength (large_args r c)"
  by (simp_all add: large_args_def)

lemma take_spec_records: "take n (spec_records p es) = spec_records p (take n es)"
proof (induction es arbitrary: p n)
  case Nil
  then show ?case by simp
next
  case (Cons e es)
  then show ?case by (cases n) simp_all
qed

lemma large_first_call:
  fixes r
  defines "r \<equiv> NtQueryDirectoryObject large_kernel (large_args True 0)"
  shows "ReturnStatus r = STATUS_SUCCESS" and "ContextOut r = Some 32761"
    and "ReturnLengthOut r = Some 130880" and "BytesCopied r = 130880"
    and "BufferOut r = Some (spec_records 4296015680 (take 4090 large_directory), [])"
proof -
  let ?ev = "[ObReferenceObjectByHandle, ExAllocatePool]"
  let ?init = "\<lparr>SkipEntries = 0, NextEntry = 0, RequiredSize = 32, nDirectories = 0,
                 Status = STATUS_NO_MORE_ENTRIES, DirInfo = [],
                 Events = [ObReferenceObjectByHandle, ExAllocatePool, KeAcquireSpinLock]\<rparr>"
  have q: "r = scan_and_deliver large_kernel (large_args True 0) 0 ?ev"
    by (simp add: r_def NtQueryDirectoryObject_def capture_arguments_def NT_SUCCESS_simps)
  obtain s left where sc: "scan 32 (- 1) False large_directory ?init = (s, left)"
    by (cases "scan 32 (- 1) False large_directory ?init")
  have ne: "large_directory \<noteq> []"
    using large_directory_length by auto
  have es: "sum_list (map (EntrySize_of 32) large_directory) = 130848"
    using sum_list_same [of large_directory "EntrySize_of 32" 131104]
    by (simp add: large_directory_sizes large_directory_length)
  have hs: "sum_list (map heap_length large_directory) = 2147024896"
    using sum_list_same [of large_directory heap_length 65536]
    by (simp add: large_directory_sizes large_directory_length)
  from scan_whole_range [where s = ?init and sz = 32 and xs = large_directory] sc
  have di: "DirInfo s = map staged_record large_directory"
    and nd: "nDirectories s = 32761" and rq: "RequiredSize s = 130880"
    and nx: "NextEntry s = 32761" and st: "Status s = STATUS_SUCCESS" and lf: "\<not> left"
    by (simp_all add: large_directory_length es ne)
  define c where "c = compact_block (Memory large_kernel) 32 4294967296 s"
  have res: "r = deliver 32 no_faults (large_args True 0) STATUS_SUCCESS s c
                   (CEvents c @ [KeReleaseSpinLock, ObDereferenceObject])"
    by (simp add: q scan_and_deliver_def sc Let_def st lf nd NT_SUCCESS_simps c_def)
  from compact_block_fields [OF di, of "Memory large_kernel" 32 4294967296]
  have recs: "Records c = spec_records 4296015680 large_directory @ [zero_record]"
    and copy: "CopyBytes c = 130880"
    by (simp_all add: c_def nd hs)
  have cut: "first_bytes 32 130880 (Records c) (Heap c)
      = (spec_records 4296015680 (take 4090 large_directory), [])"
    by (simp add: first_bytes_def recs large_directory_length take_spec_records)
  show "ReturnStatus r = STATUS_SUCCESS"
    by (simp add: res deliver_no_faults)
  show "ContextOut r = Some 32761"
    by (simp add: res deliver_no_faults nx)
  show "ReturnLengthOut r = Some 130880"
    by (simp add: res deliver_no_faults rq)
  show "BytesCopied r = 130880"
    by (simp add: res deliver_no_faults copy)
  show "BufferOut r = Some (spec_records 4296015680 (take 4090 large_directory), [])"
    by (simp add: res deliver_no_faults copy cut)
qed


lemma large_second_call:
  fixes r
  defines "r \<equiv> NtQueryDirectoryObject large_kernel (large_args False 32761)"
  shows "ReturnStatus r = STATUS_NO_MORE_ENTRIES" and "ContextOut r = None"
    and "BufferOut r = None" and "BytesCopied r = 0"
proof -
  let ?init = "\<lparr>SkipEntries = 32761, NextEntry = 0, RequiredSize = 32, nDirectories = 0,
                 Status = STATUS_NO_MORE_ENTRIES, DirInfo = [],
                 Events = [Caller ReadContext, ObReferenceObjectByHandle, ExAllocatePool,
                   KeAcquireSpinLock]\<rparr>"
  have q: "r = scan_and_deliver large_kernel (large_args False 32761) 32761
                 [Caller ReadContext, ObReferenceObjectByHandle, ExAllocatePool]"
    by (simp add: r_def NtQueryDirectoryObject_def capture_arguments_def NT_SUCCESS_simps)
  have "length large_directory \<le> unat (SkipEntries ?init)"
    by (simp add: large_directory_length)
  from scan_all_skipped [OF this, of 32 "- 1" False]
  have sc: "scan 32 (- 1) False large_directory ?init
      = (?init\<lparr>SkipEntries := 0, NextEntry := 32761,
           Events := Events ?init @ replicate 32762 ReadLinkage\<rparr>, False)"
    by (simp add: large_directory_length)
  have res: "r = untouched STATUS_NO_MORE_ENTRIES
      (Events ?init @ replicate 32762 ReadLinkage
         @ [KeReleaseSpinLock, ObDereferenceObject, ExFreePool])"
    unfolding q scan_and_deliver_def by (simp add: sc NT_SUCCESS_simps)
  show "ReturnStatus r = STATUS_NO_MORE_ENTRIES" and "ContextOut r = None"
    and "BufferOut r = None" and "BytesCopied r = 0"
    by (simp_all add: res untouched_def)
qed

lemma spec_scan_same_size:
  assumes "\<And>e. e \<in> set xs \<Longrightarrow> spec_entrySize rs e = c"
  shows "m \<le> length xs \<Longrightarrow> req + m * c \<le> bl \<Longrightarrow>
         (m < length xs \<Longrightarrow> bl < req + (m + 1) * c) \<Longrightarrow>
         spec_scan rs bl False xs req = (take m xs, req + m * c)"
  using assms
proof (induction xs arbitrary: m req)
  case Nil
  then show ?case by simp
next
  case (Cons x xs)
  from Cons.prems(4) have x: "spec_entrySize rs x = c"
    by simp
  show ?case
  proof (cases m)
    case 0
    with Cons.prems(3) x show ?thesis
      by simp
  next
    case (Suc n)
    from Cons.prems(2) Suc have fits: "req + c \<le> bl" and rest: "(req + c) + n * c \<le> bl"
      by (simp_all add: algebra_simps)
    have "spec_scan rs bl False xs (req + c) = (take n xs, (req + c) + n * c)"
    proof (rule Cons.IH)
      show "n \<le> length xs" using Cons.prems(1) Suc by simp
      show "req + c + n * c \<le> bl" by (rule rest)
      show "bl < req + c + (n + 1) * c" if "n < length xs"
        using Cons.prems(3) that Suc by (simp add: algebra_simps)
      show "spec_entrySize rs e = c" if "e \<in> set xs" for e
        using Cons.prems(4) that by simp
    qed
    with fits x Suc show ?thesis
      by (simp add: algebra_simps)
  qed
qed

lemma spec_records_type_names:
  "d \<in> set (spec_records p es) \<Longrightarrow>
   \<exists>e \<in> set es. Length (ObjectTypeName d) = Length (TypeName e)"
  by (induction es arbitrary: p) (auto simp: delivered_record_def)

lemma unat_max_ULONG: "unat (- 1 :: ULONG) = 4294967295"
  by (simp add: unsigned_minus_1_eq_mask mask_eq_exp_minus_1)

lemma large_args_update:
  "(large_args r c)\<lparr>RestartScan := r', Context := c'\<rparr> = large_args r' c'"
  by (simp add: large_args_def)

lemma large_spec_scan:
  "spec_scan 32 4294967295 False large_directory 32 = (take 32760 large_directory, 4294967072)"
  using spec_scan_same_size [of large_directory 32 131104 32760 32 4294967295]
  by (simp add: large_directory_sizes large_directory_length)

subsection \<open>The reference and the failed allocation\<close>

text \<open>
  C1. The reference that ObReferenceObjectByHandle takes is to be released on every path
  of NtQueryDirectoryObject. On the path where ExAllocatePool returns NULL it is not:
  the call returns STATUS_INSUFFICIENT_RESOURCES after the reference was taken, and
  ObDereferenceObject is not called.
\<close>

theorem query_keeps_reference_when_allocation_fails:
  "NtQueryDirectoryObject
     \<lparr>RecordSize = 16, PreviousMode = KernelMode, Faults = no_faults,
      Resolved = STATUS_SUCCESS, Directory = [], Allocated = False, Memory = (\<lambda>p. 0)\<rparr>
     \<lparr>BufferAddress = 4096, BufferLength = 64, ReturnSingleEntry = False,
      RestartScan = True, Context = 0, ReturnLength = False\<rparr>
   = \<lparr>ReturnStatus = STATUS_INSUFFICIENT_RESOURCES,
      QueryEvents = [ObReferenceObjectByHandle, ExAllocatePool],
      BufferOut = None, BytesCopied = 0, ContextOut = None, ReturnLengthOut = None\<rparr>"
  by (simp add: NtQueryDirectoryObject_def capture_arguments_def untouched_def NT_SUCCESS_simps)

subsection \<open>NtCreateDirectoryObject drops its reference\<close>

text \<open>
  C9. When ObCreateObject succeeds, NtCreateDirectoryObject calls ObInsertObject and
  after it ObDereferenceObject exactly once. When the insertion fails, the object is
  made temporary between the two and no handle is stored; when it succeeds, the object
  is not made temporary and the handle is stored after the reference was dropped.
\<close>

theorem create_drops_one_reference:
  assumes probe: "mode \<noteq> KernelMode \<longrightarrow> (\<forall>e. flt ProbeHandle = Some e \<longrightarrow> NT_SUCCESS e)"
    and created: "NT_SUCCESS created"
  shows "let r = NtCreateDirectoryObject mode flt created inserted h;
             ev = after ObInsertObject (CreateEvents r)
         in ObInsertObject \<in> set (CreateEvents r)
          \<and> count_list (CreateEvents r) ObDereferenceObject = 1
          \<and> count_list ev ObDereferenceObject = 1
          \<and> (\<not> NT_SUCCESS inserted \<longrightarrow>
               ev = [ObMakeTemporaryObject, ObDereferenceObject] \<and> HandleOut r = None
               \<and> CreateStatus r = inserted)
          \<and> (NT_SUCCESS inserted \<longrightarrow>
               ObMakeTemporaryObject \<notin> set (CreateEvents r)
               \<and> ev = [ObDereferenceObject, Caller WriteHandle]
               \<and> (flt WriteHandle = None \<longrightarrow> HandleOut r = Some h \<and> CreateStatus r = inserted))"
  using assms
  by (cases "flt WriteHandle"; cases "flt ProbeHandle")
     (auto simp: NtCreateDirectoryObject_def Let_def after_def NT_SUCCESS_simps)

theorem create_drops_one_reference_witness:
  "NT_SUCCESS STATUS_SUCCESS
   \<and> \<not> NT_SUCCESS STATUS_INSUFFICIENT_RESOURCES
   \<and> after ObInsertObject (CreateEvents (NtCreateDirectoryObject UserMode no_faults
        STATUS_SUCCESS STATUS_INSUFFICIENT_RESOURCES 7))
      = [ObMakeTemporaryObject, ObDereferenceObject]
   \<and> HandleOut (NtCreateDirectoryObject UserMode no_faults
        STATUS_SUCCESS STATUS_INSUFFICIENT_RESOURCES 7) = None"
  using create_drops_one_reference [of UserMode no_faults STATUS_SUCCESS
      STATUS_INSUFFICIENT_RESOURCES 7]
  by (simp add: NT_SUCCESS_simps no_faults_def Let_def)

subsection \<open>What is staged\<close>

text \<open>
  Where the sizes stay below \<open>2 ^ 32\<close>, a served call that examines an entry does what
  the specification says: the size that the code computes for an entry is the entrySize
  of the specification, and the call stages exactly the entries that the scan of the
  specification collects from the unconsumed entries, runningRequired starting at the
  size of a record. These entries are delivered, the cursor advances by their number,
  ReturnLength receives runningRequired, and a call with ReturnSingleEntry stages at most
  one entry.
\<close>

lemma query_stages_what_fits:
  assumes served: "served k" and range: "in_range k a"
    and examined: "skipped a < length (Directory k)"
    and sp: "spec_scan (unat (RecordSize k)) (unat (BufferLength a)) (ReturnSingleEntry a)
               (drop (skipped a) (Directory k)) (unat (RecordSize k)) = (st, r)"
  shows "(\<forall>e. unat (EntrySize_of (RecordSize k) e) = spec_entrySize (unat (RecordSize k)) e)
       \<and> delivered k a (NtQueryDirectoryObject k a) = map (member_strings (Memory k)) st
       \<and> (BufferOut (NtQueryDirectoryObject k a) = None) = (st = [])
       \<and> ContextOut (NtQueryDirectoryObject k a) = Some (of_nat (skipped a + length st))
       \<and> map_option unat (ReturnLengthOut (NtQueryDirectoryObject k a))
            = (if ReturnLength a then Some r else None)
       \<and> ReturnStatus (NtQueryDirectoryObject k a)
            = (if st = []
               then (if ReturnSingleEntry a then STATUS_BUFFER_TOO_SMALL
                     else STATUS_MORE_ENTRIES)
               else if \<not> ReturnSingleEntry a \<and> skipped a + length st < length (Directory k)
               then STATUS_MORE_ENTRIES else STATUS_SUCCESS)
       \<and> (ReturnSingleEntry a \<longrightarrow> length st \<le> 1)"
proof -
  note f = query_fields [OF served range sp]
  from range have rg: "unat (RecordSize k) + 131074 < 2 ^ 32"
    by (simp add: in_range_def)
  have es: "\<forall>e. unat (EntrySize_of (RecordSize k) e) = spec_entrySize (unat (RecordSize k)) e"
    using unat_EntrySize [OF rg] by blast
  have r: "r < 2 ^ 32"
  proof (cases "st = []")
    case False
    from spec_scan_copy_bound(2) [OF sp False] range show ?thesis
      by (simp add: in_range_def)
  next
    case True
    let ?xs = "drop (skipped a) (Directory k)"
    from examined obtain x xs where xs: "?xs = x # xs"
      by (cases ?xs) simp_all
    from sp True have "r \<le> unat (RecordSize k) + spec_entrySize (unat (RecordSize k)) x"
      unfolding xs by (auto split: if_splits prod.splits)
    with spec_entrySize_bounds(2) [of "unat (RecordSize k)" x] range show ?thesis
      by (simp add: in_range_def)
  qed
  then have ur: "unat (of_nat r :: 32 word) = r"
    by (simp add: unat_of_nat)
  have single: "ReturnSingleEntry a \<longrightarrow> length st \<le> 1"
    using spec_scan_single [of "ReturnSingleEntry a"] sp
    by (metis fst_conv)
  show ?thesis
    using f es ur single examined
    by (simp add: min_def)
qed

lemma query_stages_what_fits_example:
  "served (example_kernel [Foo, Bar])
   \<and> in_range (example_kernel [Foo, Bar]) (example_args 60 False True 0)
   \<and> skipped (example_args 60 False True 0) < length (Directory (example_kernel [Foo, Bar]))
   \<and> spec_scan 16 60 False [Foo, Bar] 16 = ([Foo], 54)
   \<and> delivered (example_kernel [Foo, Bar]) (example_args 60 False True 0)
        (NtQueryDirectoryObject (example_kernel [Foo, Bar]) (example_args 60 False True 0))
      = [([70, 111, 111], [68, 101, 118, 105, 99, 101])]
   \<and> ContextOut (NtQueryDirectoryObject (example_kernel [Foo, Bar])
        (example_args 60 False True 0)) = Some 1
   \<and> map_option unat (ReturnLengthOut (NtQueryDirectoryObject (example_kernel [Foo, Bar])
        (example_args 60 False True 0))) = Some 54
   \<and> ReturnStatus (NtQueryDirectoryObject (example_kernel [Foo, Bar])
        (example_args 60 False True 0)) = STATUS_MORE_ENTRIES"
proof -
  let ?k = "example_kernel [Foo, Bar]" and ?a = "example_args 60 False True 0"
  have range: "in_range ?k ?a"
    by (rule example_in_range) simp
  have sk: "skipped ?a = 0"
    by (simp add: skipped_def)
  have ex: "skipped ?a < length (Directory ?k)"
    by (simp add: sk)
  have sp: "spec_scan (unat (RecordSize ?k)) (unat (BufferLength ?a)) (ReturnSingleEntry ?a)
               (drop (skipped ?a) (Directory ?k)) (unat (RecordSize ?k)) = ([Foo], 54)"
    by (simp add: sk)
  from query_stages_what_fits [OF example_served range ex sp] example_served range sp
  show ?thesis
    by (simp add: sk)
qed

text \<open>
  C7. An entry is to be staged exactly when runningRequired + entrySize is at most
  bufferLength. The code computes the sum \<open>RequiredSize + EntrySize\<close> as a ULONG and
  compares what is left of it modulo \<open>2 ^ 32\<close>. In the large directory, with a buffer of
  \<open>2 ^ 32 - 1\<close> bytes, the scan of the specification stages 32760 entries and stops at the
  last one, for which runningRequired is 4294967072 and entrySize is 131104: their sum
  4295098176 is more than the buffer holds. The code stages that entry as well: it
  returns STATUS_SUCCESS, stores 32761 through Context, and stores the sum modulo
  \<open>2 ^ 32\<close>, 130880, through ReturnLength.
\<close>

theorem entry_staged_though_sum_exceeds_buffer:
  "served large_kernel \<and> \<not> in_range large_kernel (large_args True 0)
   \<and> RecordSize large_kernel = 32
   \<and> unat (BufferLength (large_args True 0)) = 4294967295
   \<and> spec_scan 32 4294967295 False (Directory large_kernel) 32
       = (take 32760 (Directory large_kernel), 4294967072)
   \<and> 4294967072 + spec_entrySize 32 (Directory large_kernel ! 32760) = 4295098176
   \<and> ReturnStatus (NtQueryDirectoryObject large_kernel (large_args True 0)) = STATUS_SUCCESS
   \<and> ContextOut (NtQueryDirectoryObject large_kernel (large_args True 0)) = Some 32761
   \<and> ReturnLengthOut (NtQueryDirectoryObject large_kernel (large_args True 0)) = Some 130880"
proof -
  have "large_directory ! 32760 \<in> set large_directory"
    by (rule nth_mem) (simp add: large_directory_length)
  then have "spec_entrySize 32 (large_directory ! 32760) = 131104"
    by (rule large_directory_sizes)
  then show ?thesis
    by (simp add: large_first_call large_spec_scan unat_max_ULONG served_def in_range_def
        NT_SUCCESS_simps)
qed

subsection \<open>The empty directory\<close>

text \<open>
  C2, as the code has it. A served call on a directory without entries returns
  STATUS_NO_MORE_ENTRIES and copies nothing. With ReturnSingleEntry it stores 0 through
  Context and, when ReturnLength is given, the size of one record through ReturnLength;
  without ReturnSingleEntry it stores nothing at all, since the stores are guarded by
  \<open>NT_SUCCESS(Status) || ReturnSingleEntry\<close>.
\<close>

theorem empty_directory_no_more_entries:
  assumes served: "served k" and empty: "Directory k = []"
  shows "ReturnStatus (NtQueryDirectoryObject k a) = STATUS_NO_MORE_ENTRIES
       \<and> BufferOut (NtQueryDirectoryObject k a) = None
       \<and> ContextOut (NtQueryDirectoryObject k a) = (if ReturnSingleEntry a then Some 0 else None)
       \<and> ReturnLengthOut (NtQueryDirectoryObject k a)
            = (if ReturnSingleEntry a \<and> ReturnLength a then Some (RecordSize k) else None)"
proof -
  from query_served [OF served] obtain ev skip
    where q: "NtQueryDirectoryObject k a = scan_and_deliver k a skip ev"
    by blast
  from served have flt: "Faults k = no_faults"
    by (simp add: served_def)
  show ?thesis
    unfolding q
    by (simp add: scan_and_deliver_def empty flt deliver_no_faults untouched_def NT_SUCCESS_simps)
qed

theorem empty_directory_no_more_entries_witness:
  "served (example_kernel []) \<and> Directory (example_kernel []) = []
   \<and> ReturnStatus (NtQueryDirectoryObject (example_kernel []) (example_args 200 True True 0))
       = STATUS_NO_MORE_ENTRIES
   \<and> ReturnLengthOut (NtQueryDirectoryObject (example_kernel []) (example_args 200 True True 0))
       = Some 16"
  using empty_directory_no_more_entries [of "example_kernel []" "example_args 200 True True 0"]
  by (simp add: example_served)

text \<open>
  C2 as stated fails without ReturnSingleEntry: ReturnLength is given and nothing is
  stored through it.
\<close>

theorem empty_directory_multi_counterexample:
  "ReturnLength (example_args 200 False True 0)
   \<and> ReturnStatus (NtQueryDirectoryObject (example_kernel []) (example_args 200 False True 0))
       = STATUS_NO_MORE_ENTRIES
   \<and> ReturnLengthOut (NtQueryDirectoryObject (example_kernel []) (example_args 200 False True 0))
       = None"
  by (simp add: query_defs example_defs)

subsection \<open>An entry that does not fit\<close>

text \<open>
  C4. A served call with ReturnSingleEntry and without RestartScan, whose first
  unconsumed entry needs \<open>n\<close> bytes, the record that ends the array included, in a
  buffer of fewer bytes: the call returns STATUS_BUFFER_TOO_SMALL, copies nothing, stores
  the cursor as it was and \<open>n\<close> through ReturnLength; every such call with the same
  cursor and a buffer of at least \<open>n\<close> bytes returns STATUS_SUCCESS, delivers the
  strings of that entry and moves the cursor by one.
\<close>

theorem single_entry_too_small:
  assumes served: "served k" and range: "in_range k a"
    and single: "ReturnSingleEntry a" and resume: "\<not> RestartScan a"
    and cursor: "unat (Context a) < length (Directory k)"
    and required: "n = unat (RecordSize k)
                     + spec_entrySize (unat (RecordSize k)) (Directory k ! unat (Context a))"
    and small: "unat (BufferLength a) < n"
  shows "ReturnStatus (NtQueryDirectoryObject k a) = STATUS_BUFFER_TOO_SMALL
       \<and> BufferOut (NtQueryDirectoryObject k a) = None
       \<and> ContextOut (NtQueryDirectoryObject k a) = Some (Context a)
       \<and> map_option unat (ReturnLengthOut (NtQueryDirectoryObject k a))
            = (if ReturnLength a then Some n else None)
       \<and> (\<forall>b. in_range k b \<and> ReturnSingleEntry b \<and> \<not> RestartScan b \<and> Context b = Context a
                \<and> n \<le> unat (BufferLength b) \<longrightarrow>
              ReturnStatus (NtQueryDirectoryObject k b) = STATUS_SUCCESS
            \<and> delivered k b (NtQueryDirectoryObject k b)
                = [member_strings (Memory k) (Directory k ! unat (Context a))]
            \<and> ContextOut (NtQueryDirectoryObject k b) = Some (Context a + 1))"
proof -
  let ?rs = "unat (RecordSize k)" and ?c = "unat (Context a)"
  let ?e = "Directory k ! ?c"
  have drop: "drop ?c (Directory k) = ?e # drop (Suc ?c) (Directory k)"
    using cursor by (simp add: Cons_nth_drop_Suc)
  have sk: "skipped a = ?c"
    using resume by (simp add: skipped_def)
  have sp: "spec_scan ?rs (unat (BufferLength a)) (ReturnSingleEntry a)
              (drop (skipped a) (Directory k)) ?rs = ([], n)"
    unfolding sk drop using small single required by simp
  note f = query_fields [OF served range sp]
  from range spec_entrySize_bounds(2) [of ?rs ?e] have "n < 2 ^ 32"
    by (simp add: in_range_def required)
  then have un: "unat (of_nat n :: 32 word) = n"
    by (simp add: unat_of_nat)
  have first: "ReturnStatus (NtQueryDirectoryObject k a) = STATUS_BUFFER_TOO_SMALL
       \<and> BufferOut (NtQueryDirectoryObject k a) = None
       \<and> ContextOut (NtQueryDirectoryObject k a) = Some (Context a)
       \<and> map_option unat (ReturnLengthOut (NtQueryDirectoryObject k a))
            = (if ReturnLength a then Some n else None)"
    using f(1-4) cursor single un by (simp add: sk min_def)
  have retry: "ReturnStatus (NtQueryDirectoryObject k b) = STATUS_SUCCESS
            \<and> delivered k b (NtQueryDirectoryObject k b) = [member_strings (Memory k) ?e]
            \<and> ContextOut (NtQueryDirectoryObject k b) = Some (Context a + 1)"
    if b: "in_range k b" "ReturnSingleEntry b" "\<not> RestartScan b" "Context b = Context a"
      "n \<le> unat (BufferLength b)" for b
  proof -
    have skb: "skipped b = ?c"
      using b by (simp add: skipped_def)
    have spb: "spec_scan ?rs (unat (BufferLength b)) (ReturnSingleEntry b)
              (drop (skipped b) (Directory k)) ?rs = ([?e], n)"
      unfolding skb drop using b required by simp
    note g = query_fields [OF served b(1) spb]
    show ?thesis
      using g(1,2,6) cursor b(2) by (simp add: skb min_def)
  qed
  show ?thesis
    using first retry by blast
qed

theorem single_entry_too_small_witness:
  "served (example_kernel [Foo, Bar])
   \<and> in_range (example_kernel [Foo, Bar]) (example_args 53 True False 0)
   \<and> ReturnSingleEntry (example_args 53 True False 0)
   \<and> \<not> RestartScan (example_args 53 True False 0)
   \<and> unat (Context (example_args 53 True False 0)) < length (Directory (example_kernel [Foo, Bar]))
   \<and> unat (BufferLength (example_args 53 True False 0)) < (54 :: nat)
   \<and> ReturnStatus (NtQueryDirectoryObject (example_kernel [Foo, Bar]) (example_args 53 True False 0))
        = STATUS_BUFFER_TOO_SMALL
   \<and> ContextOut (NtQueryDirectoryObject (example_kernel [Foo, Bar]) (example_args 53 True False 0))
        = Some 0
   \<and> map_option unat (ReturnLengthOut (NtQueryDirectoryObject (example_kernel [Foo, Bar])
        (example_args 53 True False 0))) = Some 54
   \<and> in_range (example_kernel [Foo, Bar]) (example_args 54 True False 0)
   \<and> ReturnStatus (NtQueryDirectoryObject (example_kernel [Foo, Bar]) (example_args 54 True False 0))
        = STATUS_SUCCESS
   \<and> delivered (example_kernel [Foo, Bar]) (example_args 54 True False 0)
        (NtQueryDirectoryObject (example_kernel [Foo, Bar]) (example_args 54 True False 0))
        = [([70, 111, 111], [68, 101, 118, 105, 99, 101])]
   \<and> ContextOut (NtQueryDirectoryObject (example_kernel [Foo, Bar]) (example_args 54 True False 0))
        = Some 1"
proof -
  let ?k = "example_kernel [Foo, Bar]" and ?a = "example_args 53 True False 0"
  let ?b = "example_args 54 True False 0"
  have ra: "in_range ?k ?a" and rb: "in_range ?k ?b"
    by (rule example_in_range, simp)+
  have n: "(54 :: nat) = unat (RecordSize ?k)
             + spec_entrySize (unat (RecordSize ?k)) (Directory ?k ! unat (Context ?a))"
    by simp
  from single_entry_too_small [OF example_served ra _ _ _ n] rb
  have "ReturnStatus (NtQueryDirectoryObject ?k ?a) = STATUS_BUFFER_TOO_SMALL
       \<and> BufferOut (NtQueryDirectoryObject ?k ?a) = None
       \<and> ContextOut (NtQueryDirectoryObject ?k ?a) = Some (Context ?a)
       \<and> map_option unat (ReturnLengthOut (NtQueryDirectoryObject ?k ?a))
            = (if ReturnLength ?a then Some 54 else None)
       \<and> (\<forall>b. in_range ?k b \<and> ReturnSingleEntry b \<and> \<not> RestartScan b \<and> Context b = Context ?a
                \<and> 54 \<le> unat (BufferLength b) \<longrightarrow>
              ReturnStatus (NtQueryDirectoryObject ?k b) = STATUS_SUCCESS
            \<and> delivered ?k b (NtQueryDirectoryObject ?k b)
                = [member_strings (Memory ?k) (Directory ?k ! unat (Context ?a))]
            \<and> ContextOut (NtQueryDirectoryObject ?k b) = Some (Context ?a + 1))"
    by simp
  then have "ReturnStatus (NtQueryDirectoryObject ?k ?a) = STATUS_BUFFER_TOO_SMALL
       \<and> ContextOut (NtQueryDirectoryObject ?k ?a) = Some 0
       \<and> map_option unat (ReturnLengthOut (NtQueryDirectoryObject ?k ?a)) = Some 54
       \<and> ReturnStatus (NtQueryDirectoryObject ?k ?b) = STATUS_SUCCESS
       \<and> delivered ?k ?b (NtQueryDirectoryObject ?k ?b)
            = [([70, 111, 111], [68, 101, 118, 105, 99, 101])]
       \<and> ContextOut (NtQueryDirectoryObject ?k ?b) = Some 1"
    using rb by simp
  with example_served ra rb show ?thesis
    by simp
qed

text \<open>
  C5, as the code has it. A served call without ReturnSingleEntry whose first unconsumed
  entry does not fit returns STATUS_MORE_ENTRIES, copies nothing and stores the index of
  that entry through Context: the value the cursor had when RestartScan is false, and 0
  when RestartScan is true.
\<close>

theorem multi_first_entry_too_large:
  assumes served: "served k" and range: "in_range k a"
    and multi: "\<not> ReturnSingleEntry a"
    and cursor: "skipped a < length (Directory k)"
    and small: "unat (BufferLength a) < unat (RecordSize k)
                  + spec_entrySize (unat (RecordSize k)) (Directory k ! skipped a)"
  shows "ReturnStatus (NtQueryDirectoryObject k a) = STATUS_MORE_ENTRIES
       \<and> BufferOut (NtQueryDirectoryObject k a) = None
       \<and> BytesCopied (NtQueryDirectoryObject k a) = 0
       \<and> delivered k a (NtQueryDirectoryObject k a) = []
       \<and> ContextOut (NtQueryDirectoryObject k a)
            = Some (if RestartScan a then 0 else Context a)"
proof -
  let ?rs = "unat (RecordSize k)" and ?c = "skipped a"
  have drop: "drop ?c (Directory k) = Directory k ! ?c # drop (Suc ?c) (Directory k)"
    using cursor by (simp add: Cons_nth_drop_Suc)
  have sp: "spec_scan ?rs (unat (BufferLength a)) (ReturnSingleEntry a)
              (drop (skipped a) (Directory k)) ?rs = ([], ?rs)"
    unfolding drop using small multi by simp
  note f = query_fields [OF served range sp]
  have c: "(of_nat (skipped a) :: 32 word) = (if RestartScan a then 0 else Context a)"
    by (simp add: skipped_def)
  from f(5) have "BytesCopied (NtQueryDirectoryObject k a) = 0"
    by (simp add: unat_eq_0)
  then show ?thesis
    using f(1,2,4,6) cursor multi c by (simp add: min_def)
qed

theorem multi_first_entry_too_large_witness:
  "served (example_kernel [Foo, Bar])
   \<and> in_range (example_kernel [Foo, Bar]) (example_args 53 False False 1)
   \<and> \<not> ReturnSingleEntry (example_args 53 False False 1)
   \<and> skipped (example_args 53 False False 1) < length (Directory (example_kernel [Foo, Bar]))
   \<and> ReturnStatus (NtQueryDirectoryObject (example_kernel [Foo, Bar])
        (example_args 53 False False 1)) = STATUS_MORE_ENTRIES
   \<and> BufferOut (NtQueryDirectoryObject (example_kernel [Foo, Bar])
        (example_args 53 False False 1)) = None
   \<and> ContextOut (NtQueryDirectoryObject (example_kernel [Foo, Bar])
        (example_args 53 False False 1)) = Some 1"
proof -
  let ?k = "example_kernel [Foo, Bar]" and ?a = "example_args 53 False False 1"
  have ra: "in_range ?k ?a"
    by (rule example_in_range) simp
  have sk: "skipped ?a = 1"
    by (simp add: skipped_def)
  from multi_first_entry_too_large [OF example_served ra] example_served ra
  show ?thesis
    by (simp add: sk)
qed

text \<open>
  C5 as stated fails with RestartScan: the cursor is 7 before the call and 0 after it.
\<close>

theorem multi_first_entry_too_large_counterexample:
  "\<not> ReturnSingleEntry (example_args 8 False True 7)
   \<and> Context (example_args 8 False True 7) = 7
   \<and> ReturnStatus (NtQueryDirectoryObject (example_kernel [Foo]) (example_args 8 False True 7))
       = STATUS_MORE_ENTRIES
   \<and> ContextOut (NtQueryDirectoryObject (example_kernel [Foo]) (example_args 8 False True 7))
       = Some 0"
  by (simp add: query_defs example_defs)

subsection \<open>The layout of what is delivered\<close>

text \<open>
  Where the sizes stay below \<open>2 ^ 32\<close>, a served call that copies to Buffer copies
  \<open>n + 1\<close> records with \<open>n > 0\<close>, the last of them all zero, followed by the heap. The
  heap holds, for each of the \<open>n\<close> entries from the cursor on and in their order, the name
  when the entry has one and the type name, each followed by one terminator; the records
  are those entries' descriptors with the pointers at the places of their strings in the
  heap as it lies in Buffer, behind the \<open>n + 1\<close> records, so that the caller reads the
  entries' strings through them. The number of bytes copied is the size of the records
  plus that of the heap.
\<close>

lemma delivered_layout:
  fixes k a recs heap
  defines "n \<equiv> length recs - 1"
  defines "es \<equiv> take n (drop (skipped a) (Directory k))"
    and "base \<equiv> BufferAddress a + length recs * unat (RecordSize k)"
  assumes served: "served k" and range: "in_range k a"
    and out: "BufferOut (NtQueryDirectoryObject k a) = Some (recs, heap)"
  shows "0 < n \<and> length recs = n + 1 \<and> length es = n
       \<and> last recs = zero_record
       \<and> butlast recs = spec_records base es
       \<and> heap = concat (map (heap_chars (Memory k)) es)
       \<and> unat (BytesCopied (NtQueryDirectoryObject k a))
            = length recs * unat (RecordSize k) + 2 * length heap
       \<and> map (\<lambda>d. (heap_string base heap (ObjectName d),
                     heap_string base heap (ObjectTypeName d))) (butlast recs)
            = map (member_strings (Memory k)) es"
proof -
  obtain st r where sp: "spec_scan (unat (RecordSize k)) (unat (BufferLength a))
      (ReturnSingleEntry a) (drop (skipped a) (Directory k)) (unat (RecordSize k)) = (st, r)"
    by (cases "spec_scan (unat (RecordSize k)) (unat (BufferLength a))
      (ReturnSingleEntry a) (drop (skipped a) (Directory k)) (unat (RecordSize k))")
  note f = query_fields [OF served range sp]
  from f(4) out have ne: "st \<noteq> []"
    by (auto split: if_splits)
  with f(4) out
  have recs: "recs = spec_records (BufferAddress a + (length st + 1) * unat (RecordSize k)) st
                       @ [zero_record]"
    and heap: "heap = concat (map (heap_chars (Memory k)) st)"
    by simp_all
  from recs have len: "length recs = length st + 1"
    by simp
  then have n: "n = length st"
    by (simp add: n_def)
  from spec_scan_prefix [of "unat (RecordSize k)" "unat (BufferLength a)" "ReturnSingleEntry a"
      "drop (skipped a) (Directory k)" "unat (RecordSize k)"] sp
  have es: "es = st"
    by (simp add: es_def n)
  have base: "base = BufferAddress a + (length st + 1) * unat (RecordSize k)"
    by (simp add: base_def len)
  have bl: "butlast recs = spec_records base st" and last: "last recs = zero_record"
    by (simp_all add: recs base)
  from f(6) out have "map (\<lambda>d. (heap_string base heap (ObjectName d),
                     heap_string base heap (ObjectTypeName d))) (butlast recs)
            = map (member_strings (Memory k)) st"
    by (simp add: delivered_def base_def Let_def)
  moreover from f(5) ne
  have "unat (BytesCopied (NtQueryDirectoryObject k a))
            = length recs * unat (RecordSize k) + 2 * length heap"
    by (simp add: len heap length_heap)
  ultimately show ?thesis
    using ne len n heap bl last by (simp add: es)
qed

lemma delivered_layout_example:
  "served (example_kernel [Foo, Bar])
   \<and> in_range (example_kernel [Foo, Bar]) (example_args 60 False True 0)
   \<and> BufferOut (NtQueryDirectoryObject (example_kernel [Foo, Bar]) (example_args 60 False True 0))
      = Some ([\<lparr>ObjectName = \<lparr>Length = 6, MaximumLength = 8, Buffer = 40032\<rparr>,
                ObjectTypeName = \<lparr>Length = 12, MaximumLength = 14, Buffer = 40040\<rparr>\<rparr>,
               zero_record],
              [70, 111, 111, 0, 68, 101, 118, 105, 99, 101, 0])
   \<and> spec_records 40032 [Foo]
      = [\<lparr>ObjectName = \<lparr>Length = 6, MaximumLength = 8, Buffer = 40032\<rparr>,
          ObjectTypeName = \<lparr>Length = 12, MaximumLength = 14, Buffer = 40040\<rparr>\<rparr>]
   \<and> concat (map (heap_chars example_memory) [Foo])
      = [70, 111, 111, 0, 68, 101, 118, 105, 99, 101, 0]
   \<and> unat (BytesCopied (NtQueryDirectoryObject (example_kernel [Foo, Bar])
        (example_args 60 False True 0))) = 54"
proof -
  let ?k = "example_kernel [Foo, Bar]" and ?a = "example_args 60 False True 0"
  have ra: "in_range ?k ?a"
    by (rule example_in_range) simp
  have sk: "skipped ?a = 0"
    by (simp add: skipped_def)
  from delivered_layout [OF example_served ra example_first_records] example_served ra
    example_first_records
  show ?thesis
    by (simp add: sk heap_chars_def name_chars_def read_wstr_eval delivered_record_def
        heap_length_def Foo_def example_memory_def)
qed

text \<open>
  C8. A call that delivers \<open>n\<close> records is to copy \<open>n + 1\<close> records, the last one zero,
  and the heap behind them. CopyBytes is a ULONG, and the code copies the number of bytes
  that is left of the size of the records and the heap modulo \<open>2 ^ 32\<close>. In the large
  directory, with a buffer of \<open>2 ^ 32 - 1\<close> bytes, the call stages all 32761 entries,
  returns STATUS_SUCCESS and stores 32761 through Context; the 32762 records alone take
  1048384 bytes. The call copies 130880 bytes: the first 4090 records, none of them
  zero, and no character of the heap that their pointers refer to.
\<close>

theorem copy_cut_short_by_wrapped_size:
  "ReturnStatus (NtQueryDirectoryObject large_kernel (large_args True 0)) = STATUS_SUCCESS
   \<and> ContextOut (NtQueryDirectoryObject large_kernel (large_args True 0)) = Some 32761
   \<and> BytesCopied (NtQueryDirectoryObject large_kernel (large_args True 0)) = 130880
   \<and> BufferOut (NtQueryDirectoryObject large_kernel (large_args True 0))
       = Some (spec_records 4296015680 (take 4090 (Directory large_kernel)), [])
   \<and> length (spec_records 4296015680 (take 4090 (Directory large_kernel))) = 4090
   \<and> zero_record \<notin> set (spec_records 4296015680 (take 4090 (Directory large_kernel)))
   \<and> (32761 + 1) * unat (RecordSize large_kernel) = 1048384"
proof -
  have "zero_record \<notin> set (spec_records 4296015680 (take 4090 large_directory))"
  proof
    assume "zero_record \<in> set (spec_records 4296015680 (take 4090 large_directory))"
    from spec_records_type_names [OF this] obtain e
      where "e \<in> set (take 4090 large_directory)"
        and e: "Length (ObjectTypeName zero_record) = Length (TypeName e)"
      by blast
    then have "e \<in> set large_directory"
      by (auto dest: in_set_takeD)
    from large_directory_sizes(4) [OF this] e show False
      by (simp add: zero_record_def)
  qed
  then show ?thesis
    by (simp add: large_first_call large_directory_length)
qed

subsection \<open>A scan over several calls\<close>

lemma status_distinct:
  "STATUS_SUCCESS \<noteq> STATUS_NO_MORE_ENTRIES" "STATUS_MORE_ENTRIES \<noteq> STATUS_NO_MORE_ENTRIES"
  "STATUS_BUFFER_TOO_SMALL \<noteq> STATUS_NO_MORE_ENTRIES"
  by (simp_all add: STATUS_SUCCESS_def STATUS_MORE_ENTRIES_def STATUS_NO_MORE_ENTRIES_def
      STATUS_BUFFER_TOO_SMALL_def)

lemma query_step:
  fixes k a
  defines "ms \<equiv> member_strings (Memory k)" and "xs \<equiv> Directory k"
    and "r \<equiv> NtQueryDirectoryObject k a"
  defines "cursor1 \<equiv> (case ContextOut r of None \<Rightarrow> Context a | Some c \<Rightarrow> c)"
  assumes served: "served k" and range: "in_range k a"
    and len: "length (Directory k) < 2 ^ 32"
    and acc: "acc = map ms (take (skipped a) xs)"
  shows "acc @ delivered k a r = map ms (take (unat cursor1) xs)"
    and "ReturnStatus r = STATUS_NO_MORE_ENTRIES \<Longrightarrow> acc @ delivered k a r = map ms xs"
proof -
  obtain st n where sp: "spec_scan (unat (RecordSize k)) (unat (BufferLength a))
      (ReturnSingleEntry a) (drop (skipped a) (Directory k)) (unat (RecordSize k)) = (st, n)"
    by (cases "spec_scan (unat (RecordSize k)) (unat (BufferLength a))
      (ReturnSingleEntry a) (drop (skipped a) (Directory k)) (unat (RecordSize k))")
  note f = query_fields [OF served range sp, folded r_def xs_def ms_def]
  let ?c = "skipped a" and ?m = "length st"
  from spec_scan_prefix [of "unat (RecordSize k)" "unat (BufferLength a)" "ReturnSingleEntry a"
      "drop (skipped a) (Directory k)" "unat (RecordSize k)"] sp
  have st: "st = take ?m (drop ?c xs)"
    by (simp add: xs_def)
  from spec_scan_length [of "unat (RecordSize k)" "unat (BufferLength a)" "ReturnSingleEntry a"
      "drop (skipped a) (Directory k)" "unat (RecordSize k)"] sp
  have m: "?m \<le> length xs - ?c"
    by (simp add: xs_def)
  have "map ms (take ?c xs) @ map ms st = map ms (take (?c + ?m) xs)"
    by (subst st) (simp add: take_add)
  with acc f(6) have out: "acc @ delivered k a r = map ms (take (?c + ?m) xs)"
    by simp
  define N where "N = min ?c (length xs) + ?m"
  have "N < 2 ^ 32"
    using m len unfolding N_def xs_def min_def
    by (cases "?c \<le> length (Directory k)"; simp; arith)
  then have "unat (of_nat N :: 32 word) = N"
    by (simp add: unat_of_nat)
  then have un: "unat (of_nat (min ?c (length xs) + ?m) :: 32 word) = min ?c (length xs) + ?m"
    by (simp only: N_def)
  have sc: "\<not> RestartScan a \<Longrightarrow> unat (Context a) = ?c"
    by (simp add: skipped_def)
  have empty: "RestartScan a \<Longrightarrow> \<not> ?c < length xs \<Longrightarrow> xs = []"
    by (simp add: skipped_def)
  have take: "take (unat cursor1) xs = take (?c + ?m) xs"
  proof (cases "st \<noteq> [] \<or> ReturnSingleEntry a \<or> ?c < length xs")
    case True
    with f(2) have "cursor1 = of_nat (min ?c (length xs) + ?m)"
      by (simp add: cursor1_def)
    with un have "unat cursor1 = min ?c (length xs) + ?m"
      by (simp only:)
    then show ?thesis
      using m by (cases "?c \<le> length xs") (simp_all add: min_def)
  next
    case False
    with f(2) have c1: "cursor1 = Context a" and "\<not> ?c < length xs" and "st = []"
      by (simp_all add: cursor1_def)
    then show ?thesis
      using sc empty by (cases "RestartScan a") simp_all
  qed
  show "acc @ delivered k a r = map ms (take (unat cursor1) xs)"
    by (simp only: out take)
  show "acc @ delivered k a r = map ms xs" if "ReturnStatus r = STATUS_NO_MORE_ENTRIES"
  proof -
    from that f(1) have "st = [] \<and> \<not> ?c < length xs"
      by (auto simp: status_distinct split: if_splits)
    with out show ?thesis
      by simp
  qed
qed

lemma query_loop_prefix:
  assumes served: "served k" and len: "length (Directory k) < 2 ^ 32"
  shows "\<forall>a \<in> set calls. in_range k a \<Longrightarrow>
         acc = map (member_strings (Memory k))
                 (take (if restart then 0 else unat cursor) (Directory k)) \<Longrightarrow>
         (case query_loop k calls restart cursor acc of
            (out, cur, ended) \<Rightarrow>
              (calls \<noteq> [] \<or> \<not> restart \<longrightarrow>
                 out = map (member_strings (Memory k)) (take (unat cur) (Directory k)))
            \<and> (ended \<longrightarrow> out = map (member_strings (Memory k)) (Directory k)))"
proof (induction calls arbitrary: restart cursor acc)
  case Nil
  then show ?case by simp
next
  case (Cons a as)
  let ?a = "a\<lparr>RestartScan := restart, Context := cursor\<rparr>"
  let ?r = "NtQueryDirectoryObject k ?a"
  let ?cursor1 = "case ContextOut ?r of None \<Rightarrow> cursor | Some c \<Rightarrow> c"
  let ?acc1 = "acc @ delivered k ?a ?r"
  from Cons.prems(1) have range: "in_range k ?a"
    by (simp add: in_range_def)
  have sk: "skipped ?a = (if restart then 0 else unat cursor)"
    by (simp add: skipped_def)
  from Cons.prems(2) have acc: "acc = map (member_strings (Memory k)) (take (skipped ?a) (Directory k))"
    by (simp only: sk)
  have ctx: "Context ?a = cursor"
    by simp
  note step = query_step [OF served range len acc, unfolded ctx]
  show ?case
  proof (cases "ReturnStatus ?r = STATUS_NO_MORE_ENTRIES")
    case True
    from step(2) [OF True] step(1)
    have "?acc1 = map (member_strings (Memory k)) (take (unat ?cursor1) (Directory k))"
      and "?acc1 = map (member_strings (Memory k)) (Directory k)"
      by simp_all
    moreover have "query_loop k (a # as) restart cursor acc = (?acc1, ?cursor1, True)"
      using True by (simp add: Let_def)
    ultimately show ?thesis
      by (simp only: prod.case) simp
  next
    case False
    from Cons.prems(1) have rest: "\<forall>a \<in> set as. in_range k a"
      by simp
    from step(1) have inv: "?acc1 = map (member_strings (Memory k))
        (take (if False then 0 else unat ?cursor1) (Directory k))"
      by simp
    from Cons.IH [OF rest inv] False show ?thesis
      by (simp add: Let_def)
  qed
qed

lemma example_args_update:
  "(example_args len s r c)\<lparr>RestartScan := r', Context := c'\<rparr> = example_args len s r' c'"
  by (simp add: example_args_def)

lemma example_calls:
  "ReturnStatus (NtQueryDirectoryObject (example_kernel [Foo, Bar]) (example_args 60 False True 5))
     = STATUS_MORE_ENTRIES"
  "ContextOut (NtQueryDirectoryObject (example_kernel [Foo, Bar]) (example_args 60 False True 5))
     = Some 1"
  "delivered (example_kernel [Foo, Bar]) (example_args 60 False True 5)
     (NtQueryDirectoryObject (example_kernel [Foo, Bar]) (example_args 60 False True 5))
     = [([70, 111, 111], [68, 101, 118, 105, 99, 101])]"
  "ReturnStatus (NtQueryDirectoryObject (example_kernel [Foo, Bar]) (example_args 60 False False 1))
     = STATUS_SUCCESS"
  "ContextOut (NtQueryDirectoryObject (example_kernel [Foo, Bar]) (example_args 60 False False 1))
     = Some 2"
  "delivered (example_kernel [Foo, Bar]) (example_args 60 False False 1)
     (NtQueryDirectoryObject (example_kernel [Foo, Bar]) (example_args 60 False False 1))
     = [([66, 97, 114], [68, 101, 118, 105, 99, 101])]"
  "ReturnStatus (NtQueryDirectoryObject (example_kernel [Foo, Bar]) (example_args 60 False False 2))
     = STATUS_NO_MORE_ENTRIES"
  "ContextOut (NtQueryDirectoryObject (example_kernel [Foo, Bar]) (example_args 60 False False 2))
     = None"
  "delivered (example_kernel [Foo, Bar]) (example_args 60 False False 2)
     (NtQueryDirectoryObject (example_kernel [Foo, Bar]) (example_args 60 False False 2))
     = []"
proof -
  let ?k = "example_kernel [Foo, Bar]"
  have r: "in_range ?k (example_args 60 False r c)" for r c
    by (rule example_in_range) simp
  have sp1: "spec_scan (unat (RecordSize ?k)) (unat (BufferLength (example_args 60 False True 5)))
      (ReturnSingleEntry (example_args 60 False True 5))
      (drop (skipped (example_args 60 False True 5)) (Directory ?k)) (unat (RecordSize ?k))
      = ([Foo], 54)"
    by (simp add: skipped_def)
  have sp2: "spec_scan (unat (RecordSize ?k)) (unat (BufferLength (example_args 60 False False 1)))
      (ReturnSingleEntry (example_args 60 False False 1))
      (drop (skipped (example_args 60 False False 1)) (Directory ?k)) (unat (RecordSize ?k))
      = ([Bar], 54)"
    by (simp add: skipped_def)
  have sp3: "spec_scan (unat (RecordSize ?k)) (unat (BufferLength (example_args 60 False False 2)))
      (ReturnSingleEntry (example_args 60 False False 2))
      (drop (skipped (example_args 60 False False 2)) (Directory ?k)) (unat (RecordSize ?k))
      = ([], 16)"
    by (simp add: skipped_def)
  note f1 = query_fields [OF example_served r sp1]
    and f2 = query_fields [OF example_served r sp2]
    and f3 = query_fields [OF example_served r sp3]
  show "ReturnStatus (NtQueryDirectoryObject ?k (example_args 60 False True 5))
     = STATUS_MORE_ENTRIES"
    using f1(1) by (simp add: skipped_def)
  show "ContextOut (NtQueryDirectoryObject ?k (example_args 60 False True 5)) = Some 1"
    using f1(2) by (simp add: skipped_def)
  show "delivered ?k (example_args 60 False True 5)
     (NtQueryDirectoryObject ?k (example_args 60 False True 5))
     = [([70, 111, 111], [68, 101, 118, 105, 99, 101])]"
    using f1(6) by simp
  show "ReturnStatus (NtQueryDirectoryObject ?k (example_args 60 False False 1))
     = STATUS_SUCCESS"
    using f2(1) by (simp add: skipped_def)
  show "ContextOut (NtQueryDirectoryObject ?k (example_args 60 False False 1)) = Some 2"
    using f2(2) by (simp add: skipped_def)
  show "delivered ?k (example_args 60 False False 1)
     (NtQueryDirectoryObject ?k (example_args 60 False False 1))
     = [([66, 97, 114], [68, 101, 118, 105, 99, 101])]"
    using f2(6) by simp
  show "ReturnStatus (NtQueryDirectoryObject ?k (example_args 60 False False 2))
     = STATUS_NO_MORE_ENTRIES"
    using f3(1) by (simp add: skipped_def)
  show "ContextOut (NtQueryDirectoryObject ?k (example_args 60 False False 2)) = None"
    using f3(2) by (simp add: skipped_def)
  show "delivered ?k (example_args 60 False False 2)
     (NtQueryDirectoryObject ?k (example_args 60 False False 2)) = []"
    using f3(6) by simp
qed

lemma example_loop:
  "query_loop (example_kernel [Foo, Bar])
     [example_args 60 False False 9, example_args 60 False False 9,
      example_args 60 False False 9] True 5 []
   = ([([70, 111, 111], [68, 101, 118, 105, 99, 101]),
       ([66, 97, 114], [68, 101, 118, 105, 99, 101])], 2, True)"
  by (simp add: example_args_update example_calls Let_def status_distinct)

text \<open>
  The directory is not changed, every call is served with sizes below \<open>2 ^ 32\<close>, the
  first call restarts the scan and each later call receives the cursor that the call
  before left. Then what the calls have delivered so far, in order, is the names and type
  names of the first entries of the directory, as many as the cursor says: no entry
  twice, none left out. Once a call has returned STATUS_NO_MORE_ENTRIES it is those of all
  entries, each once.
\<close>

lemma scan_delivers_each_member_once:
  assumes served: "served k" and len: "length (Directory k) < 2 ^ 32"
    and range: "\<forall>a \<in> set calls. in_range k a" and calls: "calls \<noteq> []"
    and loop: "query_loop k calls True cursor [] = (out, cur, ended)"
  shows "out = map (member_strings (Memory k)) (take (unat cur) (Directory k))
       \<and> (ended \<longrightarrow> out = map (member_strings (Memory k)) (Directory k))"
proof -
  have "case query_loop k calls True cursor [] of
            (out, cur, ended) \<Rightarrow>
              (calls \<noteq> [] \<or> \<not> True \<longrightarrow>
                 out = map (member_strings (Memory k)) (take (unat cur) (Directory k)))
            \<and> (ended \<longrightarrow> out = map (member_strings (Memory k)) (Directory k))"
    by (rule query_loop_prefix [OF served len range]) simp
  then show ?thesis
    unfolding loop using calls by (simp only: prod.case) blast
qed

lemma scan_delivers_each_member_once_example:
  "served (example_kernel [Foo, Bar])
   \<and> length (Directory (example_kernel [Foo, Bar])) < 2 ^ 32
   \<and> in_range (example_kernel [Foo, Bar]) (example_args 60 False False 9)
   \<and> query_loop (example_kernel [Foo, Bar])
        [example_args 60 False False 9, example_args 60 False False 9,
         example_args 60 False False 9] True 5 []
      = ([([70, 111, 111], [68, 101, 118, 105, 99, 101]),
          ([66, 97, 114], [68, 101, 118, 105, 99, 101])], 2, True)
   \<and> map (member_strings (Memory (example_kernel [Foo, Bar])))
        (Directory (example_kernel [Foo, Bar]))
      = [([70, 111, 111], [68, 101, 118, 105, 99, 101]),
         ([66, 97, 114], [68, 101, 118, 105, 99, 101])]"
proof -
  let ?k = "example_kernel [Foo, Bar]" and ?a = "example_args 60 False False 9"
  have range: "in_range ?k ?a"
    by (rule example_in_range) simp
  then have all: "\<forall>a \<in> set [?a, ?a, ?a]. in_range ?k a"
    by simp
  have len: "length (Directory ?k) < 2 ^ 32"
    by simp
  from scan_delivers_each_member_once [OF example_served len all _ example_loop]
    example_served len range example_loop
  show ?thesis
    by simp
qed

text \<open>
  C3. Until a call returns STATUS_NO_MORE_ENTRIES, the calls are to deliver every entry
  once. In the large directory, with buffers of \<open>2 ^ 32 - 1\<close> bytes, the first call
  stages all 32761 entries and moves the cursor behind them, while the number of bytes
  that it copies has wrapped around to 130880: the caller receives 4090 records and none
  of their strings; read as an array that its last record ends, they are 4089 records
  with empty strings. The second call, with that cursor, returns STATUS_NO_MORE_ENTRIES
  and copies nothing: the scan has ended and the other entries were never delivered.
\<close>

theorem scan_ends_with_members_left_out:
  "query_loop large_kernel [large_args True 0, large_args True 0] True 0 []
     = (replicate 4089 ([], []), 32761, True)
   \<and> length (Directory large_kernel) = 32761
   \<and> ContextOut (NtQueryDirectoryObject large_kernel (large_args True 0)) = Some 32761
   \<and> BytesCopied (NtQueryDirectoryObject large_kernel (large_args True 0)) = 130880
   \<and> ReturnStatus (NtQueryDirectoryObject large_kernel (large_args False 32761))
       = STATUS_NO_MORE_ENTRIES
   \<and> BufferOut (NtQueryDirectoryObject large_kernel (large_args False 32761)) = None"
proof -
  have d1: "delivered large_kernel (large_args True 0)
      (NtQueryDirectoryObject large_kernel (large_args True 0)) = replicate 4089 ([], [])"
    by (simp add: delivered_def large_first_call heap_string_def Let_def map_replicate_const
        large_directory_length)
  have d2: "delivered large_kernel (large_args False 32761)
      (NtQueryDirectoryObject large_kernel (large_args False 32761)) = []"
    by (simp add: delivered_def large_second_call)
  show ?thesis
    by (simp add: large_args_update Let_def large_first_call large_second_call d1 d2
        status_distinct large_directory_length)
qed

subsection \<open>What happens while the lock is held\<close>




















subsection \<open>The stores stay within the buffers\<close>













end
